theory Spec2Isabelle
  imports Main "HOL-Library.Word" "HOL-Library.Multiset"
begin

section \<open>The quiz game session of \<^verbatim>\<open>backend/internal/service\<close>\<close>

text \<open>
  A shallow embedding of \<^verbatim>\<open>game.go\<close> (the \<^verbatim>\<open>Game\<close> state machine) and of the packet
  encoding of \<^verbatim>\<open>NetService\<close>.

  \<^item> Go's \<^verbatim>\<open>int\<close> (scores, seconds, indices) has 64 bits on the platforms the server runs
    on. Its values are modelled as \<^typ>\<open>int\<close>, and every addition, subtraction and
    multiplication of the code is followed by \<open>wrap64\<close>, the two's complement
    wrap-around.
  \<^item> \<^verbatim>\<open>math.Min\<close> is applied to small integers converted to \<^verbatim>\<open>float64\<close> and the result
    is converted back; on such values it is the minimum of the integers.
  \<^item> A \<^verbatim>\<open>*Player\<close> is an address into a store of \<^verbatim>\<open>Player\<close> objects, a
    \<^verbatim>\<open>*websocket.Conn\<close> is the identity of a connection.
  \<^item> The mutex operations and \<^verbatim>\<open>fmt.Printf\<close> calls have no effect on a sequential run
    and are left out; the timer goroutine of \<^verbatim>\<open>Start\<close> is the repeated call of \<^verbatim>\<open>Tick\<close>.
  \<^item> A Go panic (slice index out of range) is the error value \<open>IndexOutOfRange\<close>.
\<close>

subsection \<open>Data\<close>

type_synonym conn = nat
type_synonym addr = nat
type_synonym uuid = nat
type_synonym byte = "8 word"

definition wrap64 :: "int \<Rightarrow> int" where
  "wrap64 x = (x + 9223372036854775808) mod 18446744073709551616 - 9223372036854775808"

text \<open>
  Of the quiz types of the package \<^verbatim>\<open>entity\<close> the records below hold the fields that
  \<^verbatim>\<open>game.go\<close> reads (\<^verbatim>\<open>Quiz.Questions\<close>, \<^verbatim>\<open>QuizQuestion.Time\<close>,
  \<^verbatim>\<open>QuizQuestion.Choices\<close>, \<^verbatim>\<open>QuizChoice.Correct\<close>).
\<close>

record QuizChoice =
  Correct :: bool

record QuizQuestion =
  Time :: int
  Choices :: "QuizChoice list"

record Quiz =
  Questions :: "QuizQuestion list"

record LeaderboardEntry =
  Name :: string
  Points :: int

record Player =
  Id :: uuid
  Name :: string
  Connection :: conn
  Points :: int
  LastAwardedPoints :: int
  Answered :: bool

datatype GameState = LobbyState | PlayState | IntermissionState | RevealState | EndState

text \<open>
  The dynamic type of a value passed as \<^verbatim>\<open>packet any\<close>. \<^verbatim>\<open>ConnectPacket\<close>,
  \<^verbatim>\<open>HostGamePacket\<close> and \<^verbatim>\<open>QuestionShowPacket\<close> are declared beside \<^verbatim>\<open>NetService\<close>;
  the other six are the packet values that \<^verbatim>\<open>game.go\<close> builds, with the field each
  composite literal there sets.
\<close>

datatype Packet =
    ConnectPacket string string
  | HostGamePacket string
  | QuestionShowPacket QuizQuestion
  | ChangeGameStatePacket GameState
  | PlayerJoinPacket Player
  | PlayerDisconnectPacket uuid
  | PlayerRevealPacket int
  | LeaderboardPacket "LeaderboardEntry list"
  | TickPacket int

datatype error = InvalidPacketType | MarshalError | WriteError | IndexOutOfRange

text \<open>
  The library calls whose result is not determined by the program text: \<^verbatim>\<open>json.Marshal\<close>
  (bytes or an error), \<^verbatim>\<open>Conn.WriteMessage\<close> (\<open>None\<close> for a \<^verbatim>\<open>nil\<close> error), and the
  pattern-defeating quicksort that \<^verbatim>\<open>sort.Slice\<close> runs on a slice of more than 12
  elements (given the comparison and the slice, it returns the slice as the sort leaves
  it).
\<close>

record Env =
  json_Marshal :: "Packet \<Rightarrow> error + byte list"
  WriteMessage :: "conn \<Rightarrow> byte list \<Rightarrow> error option"
  pdqsort_func :: "(addr \<Rightarrow> addr \<Rightarrow> bool) \<Rightarrow> addr list \<Rightarrow> addr list"

text \<open>
  \<^verbatim>\<open>Game\<close>, together with the memory its pointers refer to: \<open>heap\<close> holds the
  \<^verbatim>\<open>Player\<close> objects, \<open>wire\<close> the calls of \<^verbatim>\<open>WriteMessage\<close> made so far (connection
  and message, oldest first).
\<close>

record Game =
  Id :: uuid
  Quiz :: Quiz
  CurrentQuestion :: int
  Code :: string
  Players :: "addr list"
  Ended :: bool
  Time :: int
  Host :: conn
  State :: GameState
  heap :: "addr \<Rightarrow> Player"
  wire :: "(conn \<times> byte list) list"

subsection \<open>Packet encoding and sending\<close>

fun packetToPacketId :: "Packet \<Rightarrow> error + byte" where
  "packetToPacketId (QuestionShowPacket q) = Inr 2"
| "packetToPacketId (ConnectPacket c n) = Inr 0"
| "packetToPacketId (HostGamePacket q) = Inr 1"
| "packetToPacketId _ = Inl InvalidPacketType"

definition PacketToBytes :: "Env \<Rightarrow> Packet \<Rightarrow> error + byte list" where
  "PacketToBytes env packet =
     (case packetToPacketId packet of
        Inl err \<Rightarrow> Inl InvalidPacketType
      | Inr packetId \<Rightarrow>
          (case json_Marshal env packet of
             Inl err \<Rightarrow> Inl err
           | Inr bytes \<Rightarrow> Inr (packetId # bytes)))"

definition SendPacket :: "Env \<Rightarrow> conn \<Rightarrow> Packet \<Rightarrow> Game \<Rightarrow> error option \<times> Game" where
  "SendPacket env connection packet g =
     (case PacketToBytes env packet of
        Inl err \<Rightarrow> (Some err, g)
      | Inr bytes \<Rightarrow>
          (WriteMessage env connection bytes, g\<lparr>wire := wire g @ [(connection, bytes)]\<rparr>))"

text \<open>The loop of \<^verbatim>\<open>BroadcastPacket\<close> over the roster: it returns at the first error.\<close>

fun BroadcastPacket_players :: "Env \<Rightarrow> Packet \<Rightarrow> addr list \<Rightarrow> Game \<Rightarrow> error option \<times> Game" where
  "BroadcastPacket_players env packet [] g = (None, g)"
| "BroadcastPacket_players env packet (player # rest) g =
     (case SendPacket env (Connection (heap g player)) packet g of
        (Some err, g') \<Rightarrow> (Some err, g')
      | (None, g') \<Rightarrow> BroadcastPacket_players env packet rest g')"

definition BroadcastPacket :: "Env \<Rightarrow> Packet \<Rightarrow> bool \<Rightarrow> Game \<Rightarrow> error option \<times> Game" where
  "BroadcastPacket env packet includeHost g =
     (case BroadcastPacket_players env packet (Players g) g of
        (Some err, g') \<Rightarrow> (Some err, g')
      | (None, g') \<Rightarrow>
          (if includeHost then SendPacket env (Host g') packet g' else (None, g')))"

definition ChangeState :: "Env \<Rightarrow> GameState \<Rightarrow> Game \<Rightarrow> Game" where
  "ChangeState env state g =
     snd (BroadcastPacket env (ChangeGameStatePacket state) True (g\<lparr>State := state\<rparr>))"

subsection \<open>Leaderboard\<close>

text \<open>
  \<^verbatim>\<open>sort.Slice\<close> is the Go library's (as of Go 1.19 it calls \<^verbatim>\<open>pdqsort_func\<close>). On a
  slice of at most 12 elements that runs the library's insertion sort, \<^verbatim>\<open>insertionSort_func\<close>,
  which is modelled here: for \<open>i = 1, 2, ...\<close> the element at
  \<open>i\<close> is swapped towards the front while \<open>lessFn\<close> puts it before its left neighbour.
  \<open>insertionSort_inner lessFn x left\<close> is that inner loop; \<open>left\<close> holds the elements to
  the left of \<open>x\<close>, nearest first, and so does the result, which includes \<open>x\<close>. On a
  longer slice the library runs its pattern-defeating quicksort, which is not modelled:
  its result is the environment's \<open>pdqsort_func\<close>.
\<close>

fun insertionSort_inner :: "('a \<Rightarrow> 'a \<Rightarrow> bool) \<Rightarrow> 'a \<Rightarrow> 'a list \<Rightarrow> 'a list" where
  "insertionSort_inner lessFn x [] = [x]"
| "insertionSort_inner lessFn x (y # left) =
     (if lessFn x y then y # insertionSort_inner lessFn x left else x # y # left)"

fun insertionSort_outer :: "('a \<Rightarrow> 'a \<Rightarrow> bool) \<Rightarrow> 'a list \<Rightarrow> 'a list \<Rightarrow> 'a list" where
  "insertionSort_outer lessFn left [] = rev left"
| "insertionSort_outer lessFn left (x # rest) =
     insertionSort_outer lessFn (insertionSort_inner lessFn x left) rest"

definition insertionSort_func :: "('a \<Rightarrow> 'a \<Rightarrow> bool) \<Rightarrow> 'a list \<Rightarrow> 'a list" where
  "insertionSort_func lessFn xs = insertionSort_outer lessFn [] xs"

definition sortSlice :: "Env \<Rightarrow> (addr \<Rightarrow> addr \<Rightarrow> bool) \<Rightarrow> addr list \<Rightarrow> addr list" where
  "sortSlice env lessFn xs =
     (if length xs \<le> 12 then insertionSort_func lessFn xs else pdqsort_func env lessFn xs)"

text \<open>
  \<^verbatim>\<open>getLeaderboard\<close> sorts \<^verbatim>\<open>g.Players\<close> in place and then copies name and points of
  the first \<open>min 3 (len g.Players)\<close> players; the model returns the entries and the game.
\<close>

definition getLeaderboard :: "Env \<Rightarrow> Game \<Rightarrow> LeaderboardEntry list \<times> Game" where
  "getLeaderboard env g =
     (let g1 = g\<lparr>Players :=
                  sortSlice env (\<lambda>pi pj. Player.Points (heap g pi) > Player.Points (heap g pj)) (Players g)\<rparr>;
          n = min 3 (length (Players g1));
          leaderboard =
            map (\<lambda>player. \<lparr>LeaderboardEntry.Name = Player.Name (heap g1 player),
                            LeaderboardEntry.Points = Player.Points (heap g1 player)\<rparr>)
              (take n (Players g1))
      in (leaderboard, g1))"

subsection \<open>Phases\<close>

definition ResetPlayerAnswerStates :: "Game \<Rightarrow> Game" where
  "ResetPlayerAnswerStates g =
     fold (\<lambda>player g'. g'\<lparr>heap := (heap g')(player := (heap g' player)\<lparr>Answered := False\<rparr>)\<rparr>)
       (Players g) g"

definition End :: "Env \<Rightarrow> Game \<Rightarrow> Game" where
  "End env g =
     (if Ended g then g
      else
        (let g1 = g\<lparr>Ended := True\<rparr>;
             g2 = ChangeState env EndState g1;
             (leaderboard, g3) = getLeaderboard env g2
         in snd (BroadcastPacket env (LeaderboardPacket leaderboard) True g3)))"

text \<open>\<^verbatim>\<open>g.Quiz.Questions[g.CurrentQuestion]\<close> panics when the index is out of range.\<close>

definition index_at :: "'a list \<Rightarrow> int \<Rightarrow> error + 'a" where
  "index_at xs i = (if 0 \<le> i \<and> i < int (length xs) then Inr (xs ! nat i) else Inl IndexOutOfRange)"

definition getCurrentQuestion :: "Game \<Rightarrow> error + QuizQuestion" where
  "getCurrentQuestion g = index_at (Questions (Quiz g)) (CurrentQuestion g)"

definition NextQuestion :: "Env \<Rightarrow> Game \<Rightarrow> error + Game" where
  "NextQuestion env g =
     (let g1 = g\<lparr>CurrentQuestion := wrap64 (CurrentQuestion g + 1)\<rparr>
      in if CurrentQuestion g1 \<ge> int (length (Questions (Quiz g1))) then Inr (End env g1)
         else
           (let g2 = ResetPlayerAnswerStates g1;
                g3 = ChangeState env PlayState g2
            in case getCurrentQuestion g3 of
                 Inl err \<Rightarrow> Inl err
               | Inr currentQuestion \<Rightarrow>
                   (let g4 = g3\<lparr>Time := QuizQuestion.Time currentQuestion\<rparr>
                    in Inr (snd (SendPacket env (Host g4) (QuestionShowPacket currentQuestion) g4)))))"

text \<open>
  The loop of \<^verbatim>\<open>Reveal\<close>: a player who has not answered gets 0 as last awarded points,
  and every player is sent the own last awarded points (the error of the send is dropped).
\<close>

fun Reveal_players :: "Env \<Rightarrow> addr list \<Rightarrow> Game \<Rightarrow> Game" where
  "Reveal_players env [] g = g"
| "Reveal_players env (player # rest) g =
     (let g1 = (if \<not> Answered (heap g player)
                then g\<lparr>heap := (heap g)(player := (heap g player)\<lparr>LastAwardedPoints := 0\<rparr>)\<rparr>
                else g);
          g2 = snd (SendPacket env (Connection (heap g1 player))
                      (PlayerRevealPacket (LastAwardedPoints (heap g1 player))) g1)
      in Reveal_players env rest g2)"

definition Reveal :: "Env \<Rightarrow> Game \<Rightarrow> Game" where
  "Reveal env g = ChangeState env RevealState (Reveal_players env (Players g) (g\<lparr>Time := 7\<rparr>))"

definition Intermission :: "Env \<Rightarrow> Game \<Rightarrow> Game" where
  "Intermission env g =
     (let g1 = g\<lparr>Time := 30\<rparr>;
          g2 = ChangeState env IntermissionState g1;
          (leaderboard, g3) = getLeaderboard env g2
      in snd (BroadcastPacket env (LeaderboardPacket leaderboard) True g3))"

definition Tick :: "Env \<Rightarrow> Game \<Rightarrow> error + Game" where
  "Tick env g =
     (let g1 = g\<lparr>Time := wrap64 (Time g - 1)\<rparr>;
          g2 = snd (SendPacket env (Host g1) (TickPacket (Time g1)) g1)
      in if Time g2 = 0 then
           (case State g2 of
              PlayState \<Rightarrow> Inr (Reveal env g2)
            | RevealState \<Rightarrow> Inr (Intermission env g2)
            | IntermissionState \<Rightarrow> NextQuestion env g2
            | _ \<Rightarrow> Inr g2)
         else Inr g2)"

text \<open>The loop of \<^verbatim>\<open>Skip\<close> that forces every player who has not answered to 0 points.\<close>

fun Skip_players :: "addr list \<Rightarrow> Game \<Rightarrow> Game" where
  "Skip_players [] g = g"
| "Skip_players (player # rest) g =
     Skip_players rest
       (if \<not> Answered (heap g player)
        then g\<lparr>heap := (heap g)(player := (heap g player)\<lparr>LastAwardedPoints := 0, Answered := True\<rparr>)\<rparr>
        else g)"

definition Skip :: "Env \<Rightarrow> Game \<Rightarrow> error + Game" where
  "Skip env g =
     (let currentState = State g;
          g1 = Skip_players (Players g) g
      in case currentState of
           PlayState \<Rightarrow> Inr (Reveal env g1)
         | RevealState \<Rightarrow> Inr (Intermission env g1)
         | IntermissionState \<Rightarrow> NextQuestion env g1
         | _ \<Rightarrow> Inr g1)"

subsection \<open>Answers and scoring\<close>

definition getAnsweredPlayers :: "Game \<Rightarrow> addr list" where
  "getAnsweredPlayers g = filter (\<lambda>player. Answered (heap g player)) (Players g)"

definition isCorrectChoice :: "Game \<Rightarrow> int \<Rightarrow> error + bool" where
  "isCorrectChoice g choiceIndex =
     (case getCurrentQuestion g of
        Inl err \<Rightarrow> Inl err
      | Inr question \<Rightarrow>
          (let choices = Choices question
           in if choiceIndex < 0 \<or> choiceIndex \<ge> int (length choices) then Inr False
              else (case index_at choices choiceIndex of
                      Inl err \<Rightarrow> Inl err
                    | Inr choice \<Rightarrow> Inr (Correct choice))))"

text \<open>
  \<^verbatim>\<open>1000 / 60\<close> is a constant expression of two untyped integer constants, so it is the
  integer quotient, computed before the multiplication. The order reward is computed in
  \<^verbatim>\<open>float64\<close>, exactly, and lies between 1000 and 5000.
\<close>

definition getPointsReward :: "Game \<Rightarrow> int" where
  "getPointsReward g =
     (let answered = int (length (getAnsweredPlayers g));
          orderReward = 5000 - (1000 * min 4 answered);
          timeReward = wrap64 (Time g * (1000 div 60))
      in wrap64 (orderReward + timeReward))"

definition OnPlayerAnswer :: "Env \<Rightarrow> int \<Rightarrow> addr \<Rightarrow> Game \<Rightarrow> error + Game" where
  "OnPlayerAnswer env choice player g =
     (case isCorrectChoice g choice of
        Inl err \<Rightarrow> Inl err
      | Inr correct \<Rightarrow>
          (let g1 = (if correct
                     then (let g' = g\<lparr>heap := (heap g)(player := (heap g player)
                                       \<lparr>LastAwardedPoints := getPointsReward g\<rparr>)\<rparr>
                           in g'\<lparr>heap := (heap g')(player := (heap g' player)
                                  \<lparr>Player.Points := wrap64 (Player.Points (heap g' player)
                                                     + LastAwardedPoints (heap g' player))\<rparr>)\<rparr>)
                     else g\<lparr>heap := (heap g)(player := (heap g player)\<lparr>LastAwardedPoints := 0\<rparr>)\<rparr>);
               g2 = g1\<lparr>heap := (heap g1)(player := (heap g1 player)\<lparr>Answered := True\<rparr>)\<rparr>
           in if length (getAnsweredPlayers g2) = length (Players g2) then Inr (Reveal env g2)
              else Inr g2))"

subsection \<open>Sample inputs and observations\<close>

text \<open>
  An environment in which every packet serialises (to an empty payload), every write
  succeeds and a long slice is sorted like a short one; a fresh player as \<^verbatim>\<open>OnPlayerJoin\<close> builds it (placed at the address that
  is also its connection), and a game in the Play phase of the first of two questions
  with 9 seconds left.
\<close>

definition okEnv :: Env where
  "okEnv = \<lparr>json_Marshal = (\<lambda>packet. Inr []), WriteMessage = (\<lambda>connection bytes. None),
            pdqsort_func = insertionSort_func\<rparr>"

definition newPlayer :: "conn \<Rightarrow> Player" where
  "newPlayer connection =
     \<lparr>Player.Id = 0, Player.Name = [], Connection = connection, Player.Points = 0,
      LastAwardedPoints = 0, Answered = False\<rparr>"

definition demoQuestion :: QuizQuestion where
  "demoQuestion = \<lparr>QuizQuestion.Time = 10, Choices = [\<lparr>Correct = True\<rparr>, \<lparr>Correct = False\<rparr>]\<rparr>"

definition demoGame :: "addr list \<Rightarrow> Game" where
  "demoGame roster =
     \<lparr>Game.Id = 0, Quiz = \<lparr>Questions = [demoQuestion, demoQuestion]\<rparr>, CurrentQuestion = 0, Code = ''123456'',
      Players = roster, Ended = False, Time = 9, Host = 0, State = PlayState,
      heap = newPlayer, wire = []\<rparr>"

text \<open>
  The store after the loop of \<^verbatim>\<open>Reveal\<close> over the players \<open>ps\<close>, and the game after
  \<^verbatim>\<open>OnPlayerAnswer\<close> has recorded an answer (before it looks whether everyone has
  answered); both are proved below to be what the code computes. \<open>awarded\<close> is the change
  of the player's cumulative score over one call of \<^verbatim>\<open>OnPlayerAnswer\<close>.
\<close>

definition zeroUnanswered :: "addr list \<Rightarrow> (addr \<Rightarrow> Player) \<Rightarrow> addr \<Rightarrow> Player" where
  "zeroUnanswered ps h a =
     (if a \<in> set ps \<and> \<not> Answered (h a) then (h a)\<lparr>LastAwardedPoints := 0\<rparr> else h a)"

definition answerRecorded :: "bool \<Rightarrow> addr \<Rightarrow> Game \<Rightarrow> Game" where
  "answerRecorded correct player g =
     g\<lparr>heap := (heap g)(player := (heap g player)
          \<lparr>Player.Points := (if correct then wrap64 (Player.Points (heap g player) + getPointsReward g)
                              else Player.Points (heap g player)),
           LastAwardedPoints := (if correct then getPointsReward g else 0),
           Answered := True\<rparr>)\<rparr>"

definition awarded :: "Env \<Rightarrow> int \<Rightarrow> addr \<Rightarrow> Game \<Rightarrow> error + int" where
  "awarded env choice player g =
     (case OnPlayerAnswer env choice player g of
        Inl err \<Rightarrow> Inl err
      | Inr g' \<Rightarrow> Inr (Player.Points (heap g' player) - Player.Points (heap g player)))"

text \<open>
  A sequence of answer submissions (choice and player), handled one after the other, and
  the cumulative score of a player after it.
\<close>

fun submitAll :: "Env \<Rightarrow> (int \<times> addr) list \<Rightarrow> Game \<Rightarrow> error + Game" where
  "submitAll env [] g = Inr g"
| "submitAll env ((choice, player) # rest) g =
     (case OnPlayerAnswer env choice player g of
        Inl err \<Rightarrow> Inl err
      | Inr g' \<Rightarrow> submitAll env rest g')"

definition scoreAfter :: "Env \<Rightarrow> (int \<times> addr) list \<Rightarrow> addr \<Rightarrow> Game \<Rightarrow> error + int" where
  "scoreAfter env submissions player g =
     (case submitAll env submissions g of
        Inl err \<Rightarrow> Inl err
      | Inr g' \<Rightarrow> Inr (Player.Points (heap g' player)))"

text \<open>
  An environment in which the writes to one connection fail; the connections a broadcast
  addresses, in order; of a list of connections, those up to and including the first one
  whose write fails; and the error of that first failing write.
\<close>

definition failingEnv :: "conn \<Rightarrow> Env" where
  "failingEnv broken =
     \<lparr>json_Marshal = (\<lambda>packet. Inr []),
      WriteMessage = (\<lambda>connection bytes. if connection = broken then Some WriteError else None),
      pdqsort_func = insertionSort_func\<rparr>"

definition recipients :: "bool \<Rightarrow> Game \<Rightarrow> conn list" where
  "recipients includeHost g =
     map (\<lambda>player. Connection (heap g player)) (Players g) @ (if includeHost then [Host g] else [])"

definition reached :: "Env \<Rightarrow> byte list \<Rightarrow> conn list \<Rightarrow> conn list" where
  "reached env bytes cs =
     takeWhile (\<lambda>c. WriteMessage env c bytes = None) cs
       @ take 1 (dropWhile (\<lambda>c. WriteMessage env c bytes = None) cs)"

definition firstError :: "Env \<Rightarrow> byte list \<Rightarrow> conn list \<Rightarrow> error option" where
  "firstError env bytes cs =
     (case dropWhile (\<lambda>c. WriteMessage env c bytes = None) cs of
        [] \<Rightarrow> None
      | c # rest \<Rightarrow> WriteMessage env c bytes)"

text \<open>
  The store after the loop of \<^verbatim>\<open>Skip\<close> over the players \<open>ps\<close>, and the answered flags of
  the roster in the outcome of a transition.
\<close>

definition skipUnanswered :: "addr list \<Rightarrow> (addr \<Rightarrow> Player) \<Rightarrow> addr \<Rightarrow> Player" where
  "skipUnanswered ps h a =
     (if a \<in> set ps \<and> \<not> Answered (h a)
      then (h a)\<lparr>LastAwardedPoints := 0, Answered := True\<rparr> else h a)"

definition answeredFlags :: "error + Game \<Rightarrow> error + bool list" where
  "answeredFlags outcome =
     (case outcome of
        Inl err \<Rightarrow> Inl err
      | Inr g \<Rightarrow> Inr (map (\<lambda>player. Answered (heap g player)) (Players g)))"

text \<open>The sample game one second before the countdown of its question runs out.\<close>

definition lastSecond :: "addr list \<Rightarrow> Game" where
  "lastSecond roster = (demoGame roster)\<lparr>Time := 1\<rparr>"

text \<open>
  What the leaderboard needs of the library's quicksort, for the comparisons
  \<^verbatim>\<open>getLeaderboard\<close> passes (descending by an integer key) and slices of more than 12
  elements. \<open>sortsLongSlices\<close> is what \<^verbatim>\<open>sort.Slice\<close> documents: the result is a
  permutation of the slice and is in order, here in non-increasing order of the key.
  \<open>keepsOrderedSlices\<close> is a property of the algorithm beyond that: a slice that is in
  order already is returned as it is (on such a slice the pivot selection of the
  pattern-defeating quicksort reports an increasing pattern, and the partial insertion
  sort that follows finds nothing to move). Neither is proved here; both appear as
  hypotheses where a property of a roster of more than 12 players depends on them.
\<close>

definition sortsLongSlices :: "Env \<Rightarrow> bool" where
  "sortsLongSlices env =
     (\<forall>(key :: addr \<Rightarrow> int) xs.
        12 < length xs \<longrightarrow>
          mset (pdqsort_func env (\<lambda>a b. key a > key b) xs) = mset xs \<and>
          sorted_wrt (\<lambda>a b. key a \<ge> key b) (pdqsort_func env (\<lambda>a b. key a > key b) xs))"

definition keepsOrderedSlices :: "Env \<Rightarrow> bool" where
  "keepsOrderedSlices env =
     (\<forall>(key :: addr \<Rightarrow> int) xs.
        12 < length xs \<longrightarrow> sorted_wrt (\<lambda>a b. key a \<ge> key b) xs \<longrightarrow>
          pdqsort_func env (\<lambda>a b. key a > key b) xs = xs)"

text \<open>A roster of 13 players, one more than the insertion sort takes.\<close>

definition crowd :: "addr list" where
  "crowd = [2, 3, 4, 5, 6, 7, 8, 9, 10, 11, 12, 13, 14]"

text \<open>
  The sample game in its second question with 5 seconds left: player 2 has not answered
  yet and still has the 4144 points of the first question as last awarded points, player 3
  has answered and was awarded 5144.
\<close>

definition secondRound :: Game where
  "secondRound =
     (demoGame [2, 3])
       \<lparr>CurrentQuestion := 1, Time := 5,
        heap := newPlayer
          (2 := (newPlayer 2)\<lparr>Player.Points := 4144, LastAwardedPoints := 4144\<rparr>,
           3 := (newPlayer 3)\<lparr>Player.Points := 5144, LastAwardedPoints := 5144,
                                Answered := True\<rparr>)\<rparr>"

section \<open>Properties\<close>

subsection \<open>What sending changes\<close>

lemma SendPacket_frame: "\<exists>w. snd (SendPacket env c packet g) = g\<lparr>wire := w\<rparr>"
proof (cases "PacketToBytes env packet")
  case (Inl e)
  then have "snd (SendPacket env c packet g) = g\<lparr>wire := wire g\<rparr>"
    by (simp add: SendPacket_def)
  then show ?thesis by blast
next
  case (Inr bytes)
  then have "snd (SendPacket env c packet g) = g\<lparr>wire := wire g @ [(c, bytes)]\<rparr>"
    by (simp add: SendPacket_def)
  then show ?thesis by blast
qed

lemma BroadcastPacket_players_frame:
  "\<exists>w. snd (BroadcastPacket_players env packet ps g) = g\<lparr>wire := w\<rparr>"
proof (induction ps arbitrary: g)
  case Nil
  have "snd (BroadcastPacket_players env packet [] g) = g\<lparr>wire := wire g\<rparr>" by simp
  then show ?case by blast
next
  case (Cons p ps)
  obtain r g1 where s: "SendPacket env (Connection (heap g p)) packet g = (r, g1)"
    by (cases "SendPacket env (Connection (heap g p)) packet g")
  obtain w1 where w1: "g1 = g\<lparr>wire := w1\<rparr>"
    using SendPacket_frame [of env "Connection (heap g p)" packet g] s by auto
  show ?case
  proof (cases r)
    case None
    obtain w2 where "snd (BroadcastPacket_players env packet ps g1) = g1\<lparr>wire := w2\<rparr>"
      using Cons.IH [of g1] by blast
    then have "snd (BroadcastPacket_players env packet (p # ps) g) = g\<lparr>wire := w2\<rparr>"
      using s None w1 by simp
    then show ?thesis by blast
  next
    case (Some e)
    then have "snd (BroadcastPacket_players env packet (p # ps) g) = g\<lparr>wire := w1\<rparr>"
      using s w1 by simp
    then show ?thesis by blast
  qed
qed

lemma BroadcastPacket_frame:
  "\<exists>w. snd (BroadcastPacket env packet includeHost g) = g\<lparr>wire := w\<rparr>"
proof -
  obtain r g1 where s: "BroadcastPacket_players env packet (Players g) g = (r, g1)"
    by (cases "BroadcastPacket_players env packet (Players g) g")
  obtain w1 where w1: "g1 = g\<lparr>wire := w1\<rparr>"
    using BroadcastPacket_players_frame [of env packet "Players g" g] s by auto
  obtain w2 where w2: "snd (SendPacket env (Host g1) packet g1) = g1\<lparr>wire := w2\<rparr>"
    using SendPacket_frame by blast
  show ?thesis
  proof (cases r)
    case None
    then have "snd (BroadcastPacket env packet includeHost g)
                 = g\<lparr>wire := (if includeHost then w2 else w1)\<rparr>"
      using s w1 w2 by (simp add: BroadcastPacket_def)
    then show ?thesis by blast
  next
    case (Some e)
    then have "snd (BroadcastPacket env packet includeHost g) = g\<lparr>wire := w1\<rparr>"
      using s w1 by (simp add: BroadcastPacket_def)
    then show ?thesis by blast
  qed
qed

lemma ChangeState_frame: "\<exists>w. ChangeState env state g = g\<lparr>State := state, wire := w\<rparr>"
proof -
  obtain w where "snd (BroadcastPacket env (ChangeGameStatePacket state) True (g\<lparr>State := state\<rparr>))
                    = g\<lparr>State := state\<rparr>\<lparr>wire := w\<rparr>"
    using BroadcastPacket_frame by blast
  then have "ChangeState env state g = g\<lparr>State := state, wire := w\<rparr>"
    by (simp add: ChangeState_def)
  then show ?thesis by blast
qed

lemma Reveal_players_frame:
  "\<exists>w. Reveal_players env ps g = g\<lparr>heap := zeroUnanswered ps (heap g), wire := w\<rparr>"
proof (induction ps arbitrary: g)
  case Nil
  have "zeroUnanswered [] (heap g) = heap g" by (simp add: zeroUnanswered_def fun_eq_iff)
  then have "Reveal_players env [] g = g\<lparr>heap := zeroUnanswered [] (heap g), wire := wire g\<rparr>" by simp
  then show ?case by blast
next
  case (Cons p ps)
  define g1 where "g1 = (if \<not> Answered (heap g p)
                then g\<lparr>heap := (heap g)(p := (heap g p)\<lparr>LastAwardedPoints := 0\<rparr>)\<rparr>
                else g)"
  obtain w1 where w1: "snd (SendPacket env (Connection (heap g1 p))
                      (PlayerRevealPacket (LastAwardedPoints (heap g1 p))) g1) = g1\<lparr>wire := w1\<rparr>"
    using SendPacket_frame by blast
  obtain w2 where w2: "Reveal_players env ps (g1\<lparr>wire := w1\<rparr>)
      = g1\<lparr>wire := w1\<rparr>\<lparr>heap := zeroUnanswered ps (heap (g1\<lparr>wire := w1\<rparr>)), wire := w2\<rparr>"
    using Cons.IH by blast
  have h: "zeroUnanswered ps (heap g1) = zeroUnanswered (p # ps) (heap g)"
    by (auto simp: g1_def zeroUnanswered_def fun_eq_iff)
  have "Reveal_players env (p # ps) g = Reveal_players env ps (g1\<lparr>wire := w1\<rparr>)"
    using w1 by (simp add: g1_def Let_def)
  also have "\<dots> = g\<lparr>heap := zeroUnanswered (p # ps) (heap g), wire := w2\<rparr>"
    using w2 h by (simp add: g1_def)
  finally show ?case by blast
qed

lemma Reveal_frame:
  "\<exists>w. Reveal env g = g\<lparr>Time := 7, State := RevealState,
                        heap := zeroUnanswered (Players g) (heap g), wire := w\<rparr>"
proof -
  obtain w1 where w1: "Reveal_players env (Players g) (g\<lparr>Time := 7\<rparr>)
        = g\<lparr>Time := 7\<rparr>\<lparr>heap := zeroUnanswered (Players g) (heap (g\<lparr>Time := 7\<rparr>)), wire := w1\<rparr>"
    using Reveal_players_frame by blast
  obtain w2 where "ChangeState env RevealState (Reveal_players env (Players g) (g\<lparr>Time := 7\<rparr>))
        = (Reveal_players env (Players g) (g\<lparr>Time := 7\<rparr>))\<lparr>State := RevealState, wire := w2\<rparr>"
    using ChangeState_frame by blast
  then have "Reveal env g = g\<lparr>Time := 7, State := RevealState,
                        heap := zeroUnanswered (Players g) (heap g), wire := w2\<rparr>"
    using w1 by (simp add: Reveal_def)
  then show ?thesis by blast
qed

subsection \<open>Scoring\<close>

lemma wrap64_0 [simp]: "wrap64 0 = 0"
  by (simp add: wrap64_def)

lemma wrap64_id:
  "- 9223372036854775808 \<le> x \<Longrightarrow> x < 9223372036854775808 \<Longrightarrow> wrap64 x = x"
  by (simp add: wrap64_def)

lemma OnPlayerAnswer_recorded:
  assumes "isCorrectChoice g choice = Inr correct"
  shows "OnPlayerAnswer env choice player g =
           Inr (if length (getAnsweredPlayers (answerRecorded correct player g)) = length (Players g)
                then Reveal env (answerRecorded correct player g)
                else answerRecorded correct player g)"
proof -
  have swap: "\<And>(r::Player) a b. r\<lparr>LastAwardedPoints := a, Player.Points := b\<rparr>
                  = r\<lparr>Player.Points := b, LastAwardedPoints := a\<rparr>"
    by simp
  show ?thesis
    using assms by (cases correct) (simp_all add: OnPlayerAnswer_def answerRecorded_def Let_def swap)
qed

lemma Points_zeroUnanswered [simp]:
  "Player.Points (zeroUnanswered ps h a) = Player.Points (h a)"
  by (simp add: zeroUnanswered_def)

lemma Answered_zeroUnanswered [simp]:
  "Answered (zeroUnanswered ps h a) = Answered (h a)"
  by (simp add: zeroUnanswered_def)

lemma LastAwardedPoints_zeroUnanswered:
  "LastAwardedPoints (zeroUnanswered ps h a)
     = (if a \<in> set ps \<and> \<not> Answered (h a) then 0 else LastAwardedPoints (h a))"
  by (simp add: zeroUnanswered_def)

lemma Points_Reveal [simp]: "Player.Points (heap (Reveal env g) a) = Player.Points (heap g a)"
proof -
  obtain w where "Reveal env g = g\<lparr>Time := 7, State := RevealState,
                        heap := zeroUnanswered (Players g) (heap g), wire := w\<rparr>"
    using Reveal_frame by blast
  then show ?thesis by simp
qed

lemma awarded_eq:
  assumes "isCorrectChoice g choice = Inr correct"
  shows "awarded env choice player g =
           Inr (if correct
                then wrap64 (Player.Points (heap g player) + getPointsReward g)
                       - Player.Points (heap g player)
                else 0)"
  using OnPlayerAnswer_recorded [OF assms, of env player]
  by (simp add: awarded_def answerRecorded_def)

lemma getPointsReward_eq:
  "getPointsReward g
     = wrap64 (5000 - 1000 * min 4 (int (length (getAnsweredPlayers g))) + wrap64 (Time g * 16))"
  by (simp add: getPointsReward_def Let_def)

lemma getPointsReward_exact:
  assumes "- 288230376151711744 \<le> Time g" and "Time g \<le> 288230376151711744"
  shows "getPointsReward g
           = 5000 - 1000 * min 4 (int (length (getAnsweredPlayers g))) + Time g * 16"
proof -
  have t: "wrap64 (Time g * 16) = Time g * 16"
    using assms by (intro wrap64_id) simp_all
  have "wrap64 (5000 - 1000 * min 4 (int (length (getAnsweredPlayers g))) + Time g * 16)
          = 5000 - 1000 * min 4 (int (length (getAnsweredPlayers g))) + Time g * 16"
    using assms by (intro wrap64_id) (simp_all add: min_def)
  then show ?thesis by (simp add: getPointsReward_eq t)
qed

lemma isCorrectChoice_demoGame: "isCorrectChoice (demoGame roster) 0 = Inr True"
  by (simp add: isCorrectChoice_def getCurrentQuestion_def index_at_def demoGame_def demoQuestion_def)

lemma getPointsReward_demoGame: "getPointsReward (demoGame roster) = 5144"
  by (simp add: getPointsReward_exact getAnsweredPlayers_def demoGame_def newPlayer_def)

subsection \<open>Encoding\<close>

text \<open>
  C4: encoding is claimed to succeed for every outbound message kind. In
  \<^verbatim>\<open>packetToPacketId\<close> only \<^verbatim>\<open>QuestionShowPacket\<close> has an outbound tag; for the other six
  packets that \<^verbatim>\<open>game.go\<close> sends (phase change, player joined, player left, answer
  result, leaderboard, countdown tick) \<^verbatim>\<open>PacketToBytes\<close> returns the error
  "invalid packet type", whatever \<^verbatim>\<open>json.Marshal\<close> would do.
\<close>

theorem PacketToBytes_unregistered:
  "PacketToBytes env (ChangeGameStatePacket state) = Inl InvalidPacketType \<and>
   PacketToBytes env (PlayerJoinPacket player) = Inl InvalidPacketType \<and>
   PacketToBytes env (PlayerDisconnectPacket playerId) = Inl InvalidPacketType \<and>
   PacketToBytes env (PlayerRevealPacket points) = Inl InvalidPacketType \<and>
   PacketToBytes env (LeaderboardPacket entries) = Inl InvalidPacketType \<and>
   PacketToBytes env (TickPacket tick) = Inl InvalidPacketType"
  by (simp add: PacketToBytes_def)

subsection \<open>Answer submissions\<close>

lemma heap_Reveal: "heap (Reveal env g) = zeroUnanswered (Players g) (heap g)"
proof -
  obtain w where "Reveal env g = g\<lparr>Time := 7, State := RevealState,
                        heap := zeroUnanswered (Players g) (heap g), wire := w\<rparr>"
    using Reveal_frame by blast
  then show ?thesis by simp
qed

lemma fields_Reveal:
  "State (Reveal env g) = RevealState" "Time (Reveal env g) = 7"
  "Players (Reveal env g) = Players g" "Quiz (Reveal env g) = Quiz g"
  "CurrentQuestion (Reveal env g) = CurrentQuestion g" "Ended (Reveal env g) = Ended g"
  "Host (Reveal env g) = Host g" "Code (Reveal env g) = Code g" "Game.Id (Reveal env g) = Game.Id g"
proof -
  obtain w where "Reveal env g = g\<lparr>Time := 7, State := RevealState,
                        heap := zeroUnanswered (Players g) (heap g), wire := w\<rparr>"
    using Reveal_frame by blast
  then show "State (Reveal env g) = RevealState" "Time (Reveal env g) = 7"
  "Players (Reveal env g) = Players g" "Quiz (Reveal env g) = Quiz g"
  "CurrentQuestion (Reveal env g) = CurrentQuestion g" "Ended (Reveal env g) = Ended g"
  "Host (Reveal env g) = Host g" "Code (Reveal env g) = Code g" "Game.Id (Reveal env g) = Game.Id g"
    by simp_all
qed

lemma isCorrectChoice_total:
  assumes "getCurrentQuestion g = Inr question"
  shows "isCorrectChoice g choice =
           Inr (0 \<le> choice \<and> choice < int (length (Choices question))
                \<and> Correct (Choices question ! nat choice))"
  using assms by (simp add: isCorrectChoice_def index_at_def Let_def)

lemma OnPlayerAnswer_heap:
  assumes "OnPlayerAnswer env choice player g = Inr g'"
  obtains correct where "isCorrectChoice g choice = Inr correct"
    and "g' = answerRecorded correct player g \<or> g' = Reveal env (answerRecorded correct player g)"
proof (cases "isCorrectChoice g choice")
  case (Inl e)
  then show ?thesis using assms by (simp add: OnPlayerAnswer_def)
next
  case (Inr correct)
  then show ?thesis
    using assms OnPlayerAnswer_recorded [OF Inr, of env player] that [of correct]
    by (auto split: if_splits)
qed

text \<open>
  C2, as stated: a correct answer with \<open>s\<close> seconds remaining and \<open>n\<close> earlier answers is
  worth \<open>max 0 (5000 - 1000 * min 4 n) + s * 1000 div 60\<close>, which is 5150 for a sole
  player answering correctly with 9 seconds remaining. The code multiplies the seconds by
  the integer constant \<^verbatim>\<open>1000 / 60\<close>, which is 16: the sole player is awarded 5144.
\<close>

theorem reward_counterexample:
  "awarded okEnv 0 1 (demoGame [1]) = Inr 5144 \<and>
   awarded okEnv 0 1 (demoGame [1]) \<noteq> Inr (max 0 (5000 - 1000 * min 4 0) + (9 * 1000) div 60)"
proof -
  have "Player.Points (heap (demoGame [1]) 1) = 0"
    by (simp add: demoGame_def newPlayer_def)
  then show ?thesis
    by (simp add: awarded_eq [OF isCorrectChoice_demoGame] getPointsReward_demoGame wrap64_def)
qed

text \<open>
  C2, amended: the reward is \<open>max 0 (5000 - 1000 * min 4 n) + s * 16\<close>, where \<open>n\<close> is the
  number of roster players whose answered flag is set when the answer arrives and \<open>s\<close>
  the seconds remaining. The product and the sum are Go's 64-bit ones; they are the exact
  ones whenever \<open>s\<close> is at most \<open>2 ^ 58\<close> in absolute value. A correct answer has this
  reward as its last awarded points and adds it to the player's score (again with the
  64-bit addition); an incorrect one has 0 and leaves the score as it is.
\<close>

theorem reward_formula:
  "getPointsReward g
     = wrap64 (max 0 (5000 - 1000 * min 4 (int (length (getAnsweredPlayers g))))
               + wrap64 (Time g * 16)) \<and>
   (- 288230376151711744 \<le> Time g \<and> Time g \<le> 288230376151711744 \<longrightarrow>
      getPointsReward g
        = max 0 (5000 - 1000 * min 4 (int (length (getAnsweredPlayers g)))) + Time g * 16) \<and>
   (isCorrectChoice g choice = Inr correct \<longrightarrow>
      (\<exists>g'. OnPlayerAnswer env choice player g = Inr g' \<and>
            LastAwardedPoints (heap g' player) = (if correct then getPointsReward g else 0) \<and>
            Player.Points (heap g' player)
              = (if correct then wrap64 (Player.Points (heap g player) + getPointsReward g)
                 else Player.Points (heap g player))))"
proof -
  have pos: "max 0 (5000 - 1000 * min 4 (int (length (getAnsweredPlayers g))))
               = 5000 - 1000 * min 4 (int (length (getAnsweredPlayers g)))"
    by (simp add: min_def)
  have awardedPoints: "\<exists>g'. OnPlayerAnswer env choice player g = Inr g' \<and>
            LastAwardedPoints (heap g' player) = (if correct then getPointsReward g else 0) \<and>
            Player.Points (heap g' player)
              = (if correct then wrap64 (Player.Points (heap g player) + getPointsReward g)
                 else Player.Points (heap g player))"
    if c: "isCorrectChoice g choice = Inr correct"
  proof -
    define g2 where "g2 = answerRecorded correct player g"
    have rec: "LastAwardedPoints (heap g2 player) = (if correct then getPointsReward g else 0)"
      "Player.Points (heap g2 player)
         = (if correct then wrap64 (Player.Points (heap g player) + getPointsReward g)
            else Player.Points (heap g player))"
      "Answered (heap g2 player)"
      by (simp_all add: g2_def answerRecorded_def)
    have run: "OnPlayerAnswer env choice player g =
                 Inr (if length (getAnsweredPlayers g2) = length (Players g)
                      then Reveal env g2 else g2)"
      using OnPlayerAnswer_recorded [OF c, of env player] by (simp add: g2_def)
    have "LastAwardedPoints (heap (Reveal env g2) player) = LastAwardedPoints (heap g2 player)"
      using rec(3) by (simp add: heap_Reveal LastAwardedPoints_zeroUnanswered)
    then show ?thesis
      unfolding run using rec(1,2) by (cases "length (getAnsweredPlayers g2) = length (Players g)") simp_all
  qed
  show ?thesis
    using getPointsReward_eq [of g] getPointsReward_exact [of g] awardedPoints
    by (simp only: pos) blast
qed

theorem reward_formula_witness:
  "isCorrectChoice (demoGame [2]) 0 = Inr True \<and>
   Time (demoGame [2]) = 9 \<and> getAnsweredPlayers (demoGame [2]) = [] \<and>
   getPointsReward (demoGame [2]) = 5144 \<and>
   (\<exists>g'. OnPlayerAnswer okEnv 0 2 (demoGame [2]) = Inr g' \<and>
         LastAwardedPoints (heap g' 2) = 5144 \<and> Player.Points (heap g' 2) = 5144)"
proof -
  have t: "Time (demoGame [2]) = 9" and a: "getAnsweredPlayers (demoGame [2]) = []"
    and p: "Player.Points (heap (demoGame [2]) 2) = 0"
    by (simp_all add: getAnsweredPlayers_def demoGame_def newPlayer_def)
  show ?thesis
    using reward_formula [of "demoGame [2]" 0 True okEnv 2] isCorrectChoice_demoGame [of "[2]"]
    by (simp add: t a p getPointsReward_demoGame wrap64_def)
qed

text \<open>
  C1, as stated: over the submissions of one player within one question the player's score
  grows by 0 or by one computed reward, because a further submission of a player who has
  answered adds nothing. \<^verbatim>\<open>OnPlayerAnswer\<close> does not look at the answered flag: with two
  players in the roster and 9 seconds left, player 1 answers correctly twice and has
  5144 points after the first and 9288 after the second submission.
\<close>

theorem double_answer_counterexample:
  "scoreAfter okEnv [(0, 1)] 1 (demoGame [1, 2]) = Inr 5144 \<and>
   scoreAfter okEnv [(0, 1), (0, 1)] 1 (demoGame [1, 2]) = Inr 9288"
  by (simp add: scoreAfter_def OnPlayerAnswer_def isCorrectChoice_def getCurrentQuestion_def
      index_at_def demoGame_def demoQuestion_def getPointsReward_def getAnsweredPlayers_def
      newPlayer_def wrap64_def)

text \<open>
  C1, amended: every single submission either leaves the submitting player's score as it
  is, with 0 as last awarded points (when the choice is incorrect), or adds exactly the
  reward computed at that submission, which then is the last awarded points (when it is
  correct); no other player's score changes.
  The addition is Go's 64-bit one: as long as the sum stays inside 64 bits the score grows
  by exactly 0 or one reward. This holds for each call, whether or not the player's
  answered flag was set before.
\<close>

theorem submission_adds_zero_or_reward:
  assumes "OnPlayerAnswer env choice player g = Inr g'"
  shows "((Player.Points (heap g' player) = Player.Points (heap g player) \<and>
           LastAwardedPoints (heap g' player) = 0) \<or>
          (Player.Points (heap g' player)
             = wrap64 (Player.Points (heap g player) + getPointsReward g) \<and>
           LastAwardedPoints (heap g' player) = getPointsReward g)) \<and>
         (\<exists>correct. isCorrectChoice g choice = Inr correct \<and>
            LastAwardedPoints (heap g' player) = (if correct then getPointsReward g else 0) \<and>
            Player.Points (heap g' player)
              = (if correct then wrap64 (Player.Points (heap g player) + getPointsReward g)
                 else Player.Points (heap g player))) \<and>
         (\<forall>other. other \<noteq> player \<longrightarrow>
            Player.Points (heap g' other) = Player.Points (heap g other)) \<and>
         (- 9223372036854775808 \<le> Player.Points (heap g player) + getPointsReward g \<and>
          Player.Points (heap g player) + getPointsReward g < 9223372036854775808 \<longrightarrow>
            Player.Points (heap g' player) - Player.Points (heap g player)
              = LastAwardedPoints (heap g' player) \<and>
            (Player.Points (heap g' player) - Player.Points (heap g player) = 0 \<or>
             Player.Points (heap g' player) - Player.Points (heap g player) = getPointsReward g))"
proof -
  obtain correct where c: "isCorrectChoice g choice = Inr correct"
    and g': "g' = answerRecorded correct player g \<or> g' = Reveal env (answerRecorded correct player g)"
    using OnPlayerAnswer_heap [OF assms] by blast
  have rec: "Player.Points (heap g' a) = Player.Points (heap (answerRecorded correct player g) a)"
    "LastAwardedPoints (heap g' player)
       = LastAwardedPoints (heap (answerRecorded correct player g) player)" for a
    using g' by (auto simp: heap_Reveal answerRecorded_def LastAwardedPoints_zeroUnanswered)
  have exact: "wrap64 (Player.Points (heap g player) + getPointsReward g)
                 = Player.Points (heap g player) + getPointsReward g"
    if "- 9223372036854775808 \<le> Player.Points (heap g player) + getPointsReward g"
      and "Player.Points (heap g player) + getPointsReward g < 9223372036854775808"
    using that by (rule wrap64_id)
  show ?thesis
    unfolding rec c using exact by (cases correct) (auto simp: answerRecorded_def)
qed

theorem submission_adds_zero_or_reward_witness:
  "OnPlayerAnswer okEnv 0 2 (answerRecorded True 2 (demoGame [2, 3]))
     = Inr (answerRecorded True 2 (answerRecorded True 2 (demoGame [2, 3]))) \<and>
   Answered (heap (answerRecorded True 2 (demoGame [2, 3])) 2) \<and>
   getPointsReward (answerRecorded True 2 (demoGame [2, 3])) = 4144 \<and>
   Player.Points (heap (answerRecorded True 2 (demoGame [2, 3])) 2) = 5144 \<and>
   Player.Points (heap (answerRecorded True 2 (answerRecorded True 2 (demoGame [2, 3]))) 2)
     = 9288 \<and>
   LastAwardedPoints (heap (answerRecorded True 2 (answerRecorded True 2 (demoGame [2, 3]))) 2)
     = 4144"
proof -
  define g1 where "g1 = answerRecorded True 2 (demoGame [2, 3])"
  have p: "Player.Points (heap g1 2) = 5144" and a: "Answered (heap g1 2)"
    by (simp_all add: g1_def answerRecorded_def getPointsReward_demoGame)
       (simp add: demoGame_def newPlayer_def wrap64_def)
  have r: "getPointsReward g1 = 4144"
    by (simp add: g1_def getPointsReward_eq answerRecorded_def getAnsweredPlayers_def demoGame_def
        newPlayer_def wrap64_def)
  have run: "OnPlayerAnswer okEnv 0 2 g1 = Inr (answerRecorded True 2 g1)"
    by (simp add: g1_def OnPlayerAnswer_recorded [where correct = True] isCorrectChoice_def
        getCurrentQuestion_def index_at_def demoGame_def demoQuestion_def answerRecorded_def
        getAnsweredPlayers_def newPlayer_def)
  have q: "Player.Points (heap (answerRecorded True 2 g1) 2) = 9288"
    "LastAwardedPoints (heap (answerRecorded True 2 g1) 2) = 4144"
    by (simp_all add: answerRecorded_def r p wrap64_def)
  show ?thesis
    using submission_adds_zero_or_reward [OF run] run r p a q
    unfolding g1_def [symmetric] by simp
qed

lemma getCurrentQuestion_demoGame: "getCurrentQuestion (demoGame roster) = Inr demoQuestion"
  by (simp add: getCurrentQuestion_def index_at_def demoGame_def)

lemma getCurrentQuestion_answerRecorded [simp]:
  "getCurrentQuestion (answerRecorded correct player g) = getCurrentQuestion g"
  by (simp add: getCurrentQuestion_def answerRecorded_def)

text \<open>
  C10: while there is a current question, evaluating a submitted choice index never fails,
  whatever the index: \<^verbatim>\<open>isCorrectChoice\<close> returns a truth value (the indexing of the
  choice list never panics) and \<^verbatim>\<open>OnPlayerAnswer\<close> returns; a negative index or one
  that is not below the number of choices is incorrect and is scored with 0 points.
\<close>

theorem choice_out_of_range_incorrect:
  assumes "getCurrentQuestion g = Inr question"
  shows "(\<exists>correct. isCorrectChoice g choice = Inr correct) \<and>
         (\<exists>g'. OnPlayerAnswer env choice player g = Inr g') \<and>
         (choice < 0 \<or> choice \<ge> int (length (Choices question)) \<longrightarrow>
            isCorrectChoice g choice = Inr False \<and>
            awarded env choice player g = Inr 0 \<and>
            (\<forall>g'. OnPlayerAnswer env choice player g = Inr g' \<longrightarrow>
                    LastAwardedPoints (heap g' player) = 0))"
proof -
  note total = isCorrectChoice_total [OF assms, of choice]
  have ret: "\<exists>g'. OnPlayerAnswer env choice player g = Inr g'"
    by (simp add: OnPlayerAnswer_recorded [OF total])
  have out: "isCorrectChoice g choice = Inr False \<and>
            awarded env choice player g = Inr 0 \<and>
            (\<forall>g'. OnPlayerAnswer env choice player g = Inr g' \<longrightarrow>
                    LastAwardedPoints (heap g' player) = 0)"
    if range: "choice < 0 \<or> choice \<ge> int (length (Choices question))"
  proof -
    have wrong: "isCorrectChoice g choice = Inr False"
      using total range by auto
    have "LastAwardedPoints (heap g' player) = 0"
      if "OnPlayerAnswer env choice player g = Inr g'" for g'
      using that OnPlayerAnswer_recorded [OF wrong, of env player]
      by (auto simp: heap_Reveal answerRecorded_def LastAwardedPoints_zeroUnanswered
          split: if_splits)
    then show ?thesis using wrong awarded_eq [OF wrong] by simp
  qed
  show ?thesis using total ret out by blast
qed

theorem choice_out_of_range_incorrect_witness:
  "getCurrentQuestion (demoGame [1, 2]) = Inr demoQuestion \<and>
   int (length (Choices demoQuestion)) \<le> 2 \<and>
   isCorrectChoice (demoGame [1, 2]) 2 = Inr False \<and>
   awarded okEnv 2 1 (demoGame [1, 2]) = Inr 0 \<and>
   isCorrectChoice (demoGame [1, 2]) (- 1) = Inr False \<and>
   awarded okEnv (- 1) 1 (demoGame [1, 2]) = Inr 0"
  using choice_out_of_range_incorrect [OF getCurrentQuestion_demoGame [of "[1, 2]"],
            where choice = 2 and env = okEnv and player = 1]
    choice_out_of_range_incorrect [OF getCurrentQuestion_demoGame [of "[1, 2]"],
            where choice = "- 1" and env = okEnv and player = 1]
    getCurrentQuestion_demoGame [of "[1, 2]"]
  by (simp add: demoQuestion_def)

lemma all_answered_length:
  "(length (filter P xs) = length xs) = (\<forall>x\<in>set xs. P x)"
  by (metis filter_True length_filter_less less_irrefl_nat)

text \<open>
  C9: while there is a current question (as in the Play phase), the submission after which
  every player of the roster has answered returns with the session in Reveal and the
  countdown at 7, in that same call; every roster player then has the answered flag set,
  the submitting player's last awarded points are the reward of this answer (0 when
  incorrect) and those of every other player are what they were. Neither the phase nor
  that the roster is non-empty is needed for this.
\<close>

theorem last_answer_reveals:
  assumes "getCurrentQuestion g = Inr question"
    and "\<forall>other\<in>set (Players g). other \<noteq> player \<longrightarrow> Answered (heap g other)"
  shows "\<exists>g' correct.
           OnPlayerAnswer env choice player g = Inr g' \<and>
           State g' = RevealState \<and> Time g' = 7 \<and> Players g' = Players g \<and>
           (\<forall>p\<in>set (Players g'). Answered (heap g' p)) \<and>
           isCorrectChoice g choice = Inr correct \<and>
           LastAwardedPoints (heap g' player) = (if correct then getPointsReward g else 0) \<and>
           (\<forall>other. other \<noteq> player \<longrightarrow>
              LastAwardedPoints (heap g' other) = LastAwardedPoints (heap g other))"
proof -
  obtain correct where c: "isCorrectChoice g choice = Inr correct"
    using isCorrectChoice_total [OF assms(1)] by blast
  define g2 where "g2 = answerRecorded correct player g"
  have all2: "\<forall>p\<in>set (Players g2). Answered (heap g2 p)"
    using assms(2) by (auto simp: g2_def answerRecorded_def)
  then have "length (getAnsweredPlayers g2) = length (Players g)"
    by (simp add: getAnsweredPlayers_def all_answered_length) (simp add: g2_def answerRecorded_def)
  then have run: "OnPlayerAnswer env choice player g = Inr (Reveal env g2)"
    using OnPlayerAnswer_recorded [OF c, of env player] by (simp add: g2_def)
  have lap: "LastAwardedPoints (heap (Reveal env g2) a) = LastAwardedPoints (heap g2 a)" for a
    using all2 by (auto simp: heap_Reveal LastAwardedPoints_zeroUnanswered)
  have "State (Reveal env g2) = RevealState \<and> Time (Reveal env g2) = 7 \<and>
        Players (Reveal env g2) = Players g \<and>
        (\<forall>p\<in>set (Players (Reveal env g2)). Answered (heap (Reveal env g2) p)) \<and>
        LastAwardedPoints (heap (Reveal env g2) player) = (if correct then getPointsReward g else 0) \<and>
        (\<forall>other. other \<noteq> player \<longrightarrow>
              LastAwardedPoints (heap (Reveal env g2) other) = LastAwardedPoints (heap g other))"
  proof -
    have "\<forall>p\<in>set (Players (Reveal env g2)). Answered (heap (Reveal env g2) p)"
      using all2 by (simp add: fields_Reveal heap_Reveal)
    moreover have "Players (Reveal env g2) = Players g"
      by (simp add: fields_Reveal) (simp add: g2_def answerRecorded_def)
    moreover have "LastAwardedPoints (heap g2 player) = (if correct then getPointsReward g else 0)"
      by (simp add: g2_def answerRecorded_def)
    moreover have "\<forall>other. other \<noteq> player \<longrightarrow>
                     LastAwardedPoints (heap g2 other) = LastAwardedPoints (heap g other)"
      by (simp add: g2_def answerRecorded_def)
    ultimately show ?thesis by (simp add: fields_Reveal lap)
  qed
  then show ?thesis using run c by blast
qed

theorem last_answer_reveals_witness:
  "getCurrentQuestion (answerRecorded False 2 (demoGame [1, 2, 3])) = Inr demoQuestion \<and>
   (\<exists>g'. OnPlayerAnswer okEnv 0 1 (answerRecorded False 3 (answerRecorded False 2 (demoGame [1, 2, 3]))) = Inr g' \<and>
         State g' = RevealState \<and> Time g' = 7 \<and>
         map (\<lambda>p. LastAwardedPoints (heap g' p)) (Players g') = [3144, 0, 0])"
proof -
  define g where "g = answerRecorded False 3 (answerRecorded False 2 (demoGame [1, 2, 3]))"
  have cur: "getCurrentQuestion g = Inr demoQuestion"
    by (simp add: g_def getCurrentQuestion_demoGame)
  have others: "\<forall>other\<in>set (Players g). other \<noteq> 1 \<longrightarrow> Answered (heap g other)"
    by (simp add: g_def answerRecorded_def demoGame_def)
  have c: "isCorrectChoice g 0 = Inr True"
    by (simp add: isCorrectChoice_total [OF cur] demoQuestion_def)
  have r: "getPointsReward g = 3144"
    by (simp add: getPointsReward_eq getAnsweredPlayers_def g_def answerRecorded_def demoGame_def
        newPlayer_def wrap64_def)
  have p: "Players g = [1, 2, 3]" by (simp add: g_def answerRecorded_def demoGame_def)
  have l: "LastAwardedPoints (heap g 2) = 0" "LastAwardedPoints (heap g 3) = 0"
    by (simp_all add: g_def answerRecorded_def)
  show ?thesis
    using last_answer_reveals [OF cur others, of okEnv 0] c r p l
    unfolding g_def [symmetric] by (auto simp: getCurrentQuestion_demoGame)
qed

subsection \<open>Broadcast\<close>

lemma reached_simps [simp]:
  "reached env bytes [] = []"
  "reached env bytes (c # cs) =
     c # (case WriteMessage env c bytes of Some err \<Rightarrow> [] | None \<Rightarrow> reached env bytes cs)"
  by (cases "WriteMessage env c bytes"; simp add: reached_def)+

lemma firstError_simps [simp]:
  "firstError env bytes [] = None"
  "firstError env bytes (c # cs) =
     (case WriteMessage env c bytes of Some err \<Rightarrow> Some err | None \<Rightarrow> firstError env bytes cs)"
  by (cases "WriteMessage env c bytes"; simp add: firstError_def)+

lemma SendPacket_encoded:
  "PacketToBytes env packet = Inr bytes \<Longrightarrow>
     SendPacket env c packet g = (WriteMessage env c bytes, g\<lparr>wire := wire g @ [(c, bytes)]\<rparr>)"
  by (simp add: SendPacket_def)

lemma BroadcastPacket_players_encoded:
  assumes "PacketToBytes env packet = Inr bytes"
  shows "BroadcastPacket_players env packet ps g =
           (firstError env bytes (map (\<lambda>p. Connection (heap g p)) ps),
            g\<lparr>wire := wire g @ map (\<lambda>c. (c, bytes))
                                  (reached env bytes (map (\<lambda>p. Connection (heap g p)) ps))\<rparr>)"
proof (induction ps arbitrary: g)
  case Nil
  show ?case by simp
next
  case (Cons p ps)
  show ?case
    by (cases "WriteMessage env (Connection (heap g p)) bytes")
       (simp_all add: SendPacket_encoded [OF assms] Cons.IH)
qed

lemma firstError_append:
  "firstError env bytes (cs @ ds) =
     (case firstError env bytes cs of Some err \<Rightarrow> Some err | None \<Rightarrow> firstError env bytes ds)"
  by (induction cs) (auto split: option.splits)

lemma reached_append:
  "reached env bytes (cs @ ds) =
     (case firstError env bytes cs of
        Some err \<Rightarrow> reached env bytes cs
      | None \<Rightarrow> reached env bytes cs @ reached env bytes ds)"
  by (induction cs) (auto split: option.splits)

lemma reached_all:
  "\<forall>c\<in>set cs. WriteMessage env c bytes = None \<Longrightarrow>
     reached env bytes cs = cs \<and> firstError env bytes cs = None"
  by (induction cs) auto

lemma BroadcastPacket_encoded:
  assumes "PacketToBytes env packet = Inr bytes"
  shows "BroadcastPacket env packet includeHost g =
           (firstError env bytes (recipients includeHost g),
            g\<lparr>wire := wire g @ map (\<lambda>c. (c, bytes)) (reached env bytes (recipients includeHost g))\<rparr>)"
proof (cases "firstError env bytes (map (\<lambda>p. Connection (heap g p)) (Players g))")
  case None
  then show ?thesis
    by (cases "WriteMessage env (Host g) bytes")
       (simp_all add: BroadcastPacket_def BroadcastPacket_players_encoded [OF assms]
          SendPacket_encoded [OF assms] recipients_def firstError_append reached_append)
next
  case (Some err)
  then show ?thesis
    by (simp add: BroadcastPacket_def BroadcastPacket_players_encoded [OF assms]
          recipients_def firstError_append reached_append)
qed

lemma PacketToBytes_question_okEnv:
  "PacketToBytes okEnv (QuestionShowPacket q) = Inr [2]"
  "PacketToBytes (failingEnv c) (QuestionShowPacket q) = Inr [2]"
  by (simp_all add: PacketToBytes_def okEnv_def failingEnv_def)

text \<open>
  C3, as stated: a failing recipient does not keep the later recipients from being sent
  the message. \<^verbatim>\<open>BroadcastPacket\<close> returns at the first error: with the roster
  \<open>[1, 2]\<close> and the write to player 1 failing, only the write to connection 1 is made;
  player 2 and the host are written to when no write fails.
\<close>

theorem broadcast_counterexample:
  "BroadcastPacket (failingEnv 1) (QuestionShowPacket demoQuestion) True (demoGame [1, 2])
     = (Some WriteError, (demoGame [1, 2])\<lparr>wire := [(1, [2])]\<rparr>) \<and>
   BroadcastPacket okEnv (QuestionShowPacket demoQuestion) True (demoGame [1, 2])
     = (None, (demoGame [1, 2])\<lparr>wire := [(1, [2]), (2, [2]), (0, [2])]\<rparr>)"
  by (simp add: BroadcastPacket_encoded PacketToBytes_question_okEnv recipients_def)
     (simp add: demoGame_def newPlayer_def okEnv_def failingEnv_def)

text \<open>
  C3, amended: a broadcast of a packet that encodes writes the message to the roster in
  order and then to the host when included, stops after the first write that fails and
  returns that error; the recipients before the failing one and the failing one are
  written to, the later ones are not. When no write fails every recipient is written to.
\<close>

theorem broadcast_stops_at_first_failure:
  assumes "PacketToBytes env packet = Inr bytes"
  shows "BroadcastPacket env packet includeHost g =
           (firstError env bytes (recipients includeHost g),
            g\<lparr>wire := wire g @ map (\<lambda>c. (c, bytes))
                                  (reached env bytes (recipients includeHost g))\<rparr>) \<and>
         ((\<forall>c\<in>set (recipients includeHost g). WriteMessage env c bytes = None) \<longrightarrow>
            BroadcastPacket env packet includeHost g =
              (None, g\<lparr>wire := wire g @ map (\<lambda>c. (c, bytes)) (recipients includeHost g)\<rparr>))"
  using BroadcastPacket_encoded [OF assms, of includeHost g]
    reached_all [of "recipients includeHost g" env bytes]
  by auto

theorem broadcast_stops_at_first_failure_witness:
  "PacketToBytes (failingEnv 3) (QuestionShowPacket demoQuestion) = Inr [2] \<and>
   recipients True (demoGame [2, 3, 4]) = [2, 3, 4, 0] \<and>
   reached (failingEnv 3) [2] [2, 3, 4, 0] = [2, 3] \<and>
   firstError (failingEnv 3) [2] [2, 3, 4, 0] = Some WriteError \<and>
   BroadcastPacket (failingEnv 3) (QuestionShowPacket demoQuestion) True (demoGame [2, 3, 4])
     = (Some WriteError, (demoGame [2, 3, 4])\<lparr>wire := [(2, [2]), (3, [2])]\<rparr>) \<and>
   PacketToBytes okEnv (QuestionShowPacket demoQuestion) = Inr [2] \<and>
   map (\<lambda>c. WriteMessage okEnv c [2]) (recipients True (demoGame [2, 3, 4]))
     = [None, None, None, None] \<and>
   BroadcastPacket okEnv (QuestionShowPacket demoQuestion) True (demoGame [2, 3, 4])
     = (None, (demoGame [2, 3, 4])\<lparr>wire := [(2, [2]), (3, [2]), (4, [2]), (0, [2])]\<rparr>)"
proof -
  have r: "recipients True (demoGame [2, 3, 4]) = [2, 3, 4, 0]"
    by (simp add: recipients_def demoGame_def newPlayer_def)
  have ok: "\<forall>c\<in>set (recipients True (demoGame [2, 3, 4])). WriteMessage okEnv c [2] = None"
    by (simp add: okEnv_def)
  have w: "wire (demoGame [2, 3, 4]) = []" by (simp add: demoGame_def)
  show ?thesis
    using broadcast_stops_at_first_failure [OF PacketToBytes_question_okEnv(2) [of 3 demoQuestion],
            of True "demoGame [2, 3, 4]"]
      broadcast_stops_at_first_failure [OF PacketToBytes_question_okEnv(1) [of demoQuestion],
            of True "demoGame [2, 3, 4]"] ok
    by (simp add: r w PacketToBytes_def failingEnv_def okEnv_def)
qed

subsection \<open>Skip and timeout\<close>

lemma Skip_players_eq: "Skip_players ps g = g\<lparr>heap := skipUnanswered ps (heap g)\<rparr>"
proof (induction ps arbitrary: g)
  case Nil
  have "skipUnanswered [] (heap g) = heap g" by (simp add: skipUnanswered_def fun_eq_iff)
  then show ?case by simp
next
  case (Cons p ps)
  have "skipUnanswered ps ((heap g)(p := (heap g p)\<lparr>LastAwardedPoints := 0, Answered := True\<rparr>))
          = skipUnanswered (p # ps) (heap g)" if "\<not> Answered (heap g p)"
    using that by (auto simp: skipUnanswered_def fun_eq_iff)
  moreover have "skipUnanswered ps (heap g) = skipUnanswered (p # ps) (heap g)" if "Answered (heap g p)"
    using that by (auto simp: skipUnanswered_def fun_eq_iff)
  ultimately show ?case by (simp add: Cons.IH)
qed

lemma zeroUnanswered_skipUnanswered:
  "zeroUnanswered ps (skipUnanswered ps h) = skipUnanswered ps h"
  by (auto simp: zeroUnanswered_def skipUnanswered_def fun_eq_iff)

lemma Skip_Play:
  assumes "State g = PlayState"
  shows "\<exists>w. Skip env g = Inr (g\<lparr>Time := 7, State := RevealState,
                                   heap := skipUnanswered (Players g) (heap g), wire := w\<rparr>)"
proof -
  obtain w where "Reveal env (g\<lparr>heap := skipUnanswered (Players g) (heap g)\<rparr>)
      = g\<lparr>heap := skipUnanswered (Players g) (heap g)\<rparr>
         \<lparr>Time := 7, State := RevealState,
          heap := zeroUnanswered (Players (g\<lparr>heap := skipUnanswered (Players g) (heap g)\<rparr>))
                    (heap (g\<lparr>heap := skipUnanswered (Players g) (heap g)\<rparr>)),
          wire := w\<rparr>"
    using Reveal_frame by blast
  then have "Skip env g = Inr (g\<lparr>Time := 7, State := RevealState,
                                   heap := skipUnanswered (Players g) (heap g), wire := w\<rparr>)"
    using assms by (simp add: Skip_def Skip_players_eq zeroUnanswered_skipUnanswered)
  then show ?thesis by blast
qed

lemma Tick_Play:
  assumes "State g = PlayState" and "Time g = 1"
  shows "\<exists>w. Tick env g = Inr (g\<lparr>Time := 7, State := RevealState,
                                   heap := zeroUnanswered (Players g) (heap g), wire := w\<rparr>)"
proof -
  obtain w1 where w1: "snd (SendPacket env (Host (g\<lparr>Time := 0\<rparr>))
                             (TickPacket (Time (g\<lparr>Time := 0\<rparr>))) (g\<lparr>Time := 0\<rparr>))
                        = g\<lparr>Time := 0\<rparr>\<lparr>wire := w1\<rparr>"
    using SendPacket_frame by blast
  obtain w where "Reveal env (g\<lparr>Time := 0, wire := w1\<rparr>)
      = g\<lparr>Time := 0, wire := w1\<rparr>
         \<lparr>Time := 7, State := RevealState,
          heap := zeroUnanswered (Players (g\<lparr>Time := 0, wire := w1\<rparr>)) (heap (g\<lparr>Time := 0, wire := w1\<rparr>)),
          wire := w\<rparr>"
    using Reveal_frame by blast
  then have "Tick env g = Inr (g\<lparr>Time := 7, State := RevealState,
                                   heap := zeroUnanswered (Players g) (heap g), wire := w\<rparr>)"
    using assms w1 by (simp add: Tick_def Let_def)
  then show ?thesis by blast
qed

text \<open>
  C5, as stated: from Play, the host's skip and the timeout of the countdown end in the
  same session and player state. \<^verbatim>\<open>Skip\<close> also sets the answered flag of every player
  it forces to 0 points, the loop of \<^verbatim>\<open>Reveal\<close> does not: with one player who has not
  answered, the flag is set after the skip and unset after the timeout.
\<close>

theorem skip_timeout_counterexample:
  "answeredFlags (Skip okEnv (lastSecond [1])) = Inr [True] \<and>
   answeredFlags (Tick okEnv (lastSecond [1])) = Inr [False]"
proof -
  have s: "State (lastSecond [1]) = PlayState" and t: "Time (lastSecond [1]) = 1"
    by (simp_all add: lastSecond_def demoGame_def)
  obtain w1 where "Skip okEnv (lastSecond [1])
      = Inr ((lastSecond [1])\<lparr>Time := 7, State := RevealState,
               heap := skipUnanswered (Players (lastSecond [1])) (heap (lastSecond [1])), wire := w1\<rparr>)"
    using Skip_Play [OF s] by blast
  moreover obtain w2 where "Tick okEnv (lastSecond [1])
      = Inr ((lastSecond [1])\<lparr>Time := 7, State := RevealState,
               heap := zeroUnanswered (Players (lastSecond [1])) (heap (lastSecond [1])), wire := w2\<rparr>)"
    using Tick_Play [OF s t] by blast
  ultimately show ?thesis
    by (simp add: answeredFlags_def lastSecond_def demoGame_def skipUnanswered_def
        zeroUnanswered_def newPlayer_def)
qed

text \<open>
  C5, amended: for every session in Play, whatever its countdown, the host's skip and the
  timeout of the countdown (the tick of the same session that takes the countdown from 1
  to 0) both return with the session in Reveal and the countdown at 7, and with the same
  session fields and the same player fields, except for the answered flags: the skip
  leaves every roster player marked as answered, the timeout leaves the flags as they
  were. In both, a roster player who had not answered has 0 as last awarded points, and
  nothing else of any player changes. (The messages written on the way are not compared.)
\<close>

theorem skip_matches_timeout:
  assumes "State g = PlayState"
  shows "\<exists>gs gt.
           Skip env g = Inr gs \<and> Tick env (g\<lparr>Time := 1\<rparr>) = Inr gt \<and>
           State gs = RevealState \<and> Time gs = 7 \<and>
           gs = g\<lparr>Time := 7, State := RevealState, heap := heap gs, wire := wire gs\<rparr> \<and>
           gt = gs\<lparr>heap := heap gt, wire := wire gt\<rparr> \<and>
           (\<forall>a. heap gs a =
                  (if a \<in> set (Players g) \<and> \<not> Answered (heap g a)
                   then (heap g a)\<lparr>LastAwardedPoints := 0, Answered := True\<rparr>
                   else heap g a)) \<and>
           (\<forall>a. heap gt a = (heap gs a)\<lparr>Answered := Answered (heap g a)\<rparr>) \<and>
           (\<forall>p\<in>set (Players g).
              Answered (heap gs p) \<and>
              (\<not> Answered (heap g p) \<longrightarrow>
                 LastAwardedPoints (heap gs p) = 0 \<and> LastAwardedPoints (heap gt p) = 0))"
proof -
  let ?g1 = "g\<lparr>Time := 1\<rparr>"
  obtain ws where s: "Skip env g = Inr (g\<lparr>Time := 7, State := RevealState,
                                   heap := skipUnanswered (Players g) (heap g), wire := ws\<rparr>)"
    using Skip_Play [OF assms] by blast
  have "State ?g1 = PlayState" and "Time ?g1 = 1" using assms by simp_all
  then obtain wt where "Tick env ?g1 = Inr (?g1\<lparr>Time := 7, State := RevealState,
                                   heap := zeroUnanswered (Players ?g1) (heap ?g1), wire := wt\<rparr>)"
    using Tick_Play [of ?g1 env] by blast
  then have t: "Tick env ?g1 = Inr (g\<lparr>Time := 7, State := RevealState,
                                   heap := zeroUnanswered (Players g) (heap g), wire := wt\<rparr>)"
    by simp
  have "\<forall>a. zeroUnanswered (Players g) (heap g) a
              = (skipUnanswered (Players g) (heap g) a)\<lparr>Answered := Answered (heap g a)\<rparr>"
    by (simp add: zeroUnanswered_def skipUnanswered_def)
  moreover have "\<forall>a. skipUnanswered (Players g) (heap g) a =
                  (if a \<in> set (Players g) \<and> \<not> Answered (heap g a)
                   then (heap g a)\<lparr>LastAwardedPoints := 0, Answered := True\<rparr>
                   else heap g a)"
    by (simp add: skipUnanswered_def)
  moreover have "\<forall>p\<in>set (Players g).
              Answered (skipUnanswered (Players g) (heap g) p) \<and>
              (\<not> Answered (heap g p) \<longrightarrow>
                 LastAwardedPoints (skipUnanswered (Players g) (heap g) p) = 0 \<and>
                 LastAwardedPoints (zeroUnanswered (Players g) (heap g) p) = 0)"
    by (simp add: zeroUnanswered_def skipUnanswered_def)
  ultimately show ?thesis unfolding s t by simp
qed

theorem skip_matches_timeout_witness:
  "State secondRound = PlayState \<and> Time secondRound = 5 \<and>
   map (\<lambda>p. LastAwardedPoints (heap secondRound p)) [2, 3] = [4144, 5144] \<and>
   map (\<lambda>p. Answered (heap secondRound p)) [2, 3] = [False, True] \<and>
   (\<exists>gs gt. Skip okEnv secondRound = Inr gs \<and> Tick okEnv (secondRound\<lparr>Time := 1\<rparr>) = Inr gt \<and>
      State gs = RevealState \<and> State gt = RevealState \<and> Time gs = 7 \<and> Time gt = 7 \<and>
      Players gs = [2, 3] \<and> Players gt = [2, 3] \<and>
      map (\<lambda>p. LastAwardedPoints (heap gs p)) [2, 3] = [0, 5144] \<and>
      map (\<lambda>p. LastAwardedPoints (heap gt p)) [2, 3] = [0, 5144] \<and>
      map (\<lambda>p. Answered (heap gs p)) [2, 3] = [True, True] \<and>
      map (\<lambda>p. Answered (heap gt p)) [2, 3] = [False, True])"
proof -
  have s: "State secondRound = PlayState" and t: "Time secondRound = 5"
    and p: "Players secondRound = [2, 3]"
    by (simp_all add: secondRound_def demoGame_def)
  have h: "heap secondRound 2 = (newPlayer 2)\<lparr>Player.Points := 4144, LastAwardedPoints := 4144\<rparr>"
    "heap secondRound 3
       = (newPlayer 3)\<lparr>Player.Points := 5144, LastAwardedPoints := 5144, Answered := True\<rparr>"
    by (simp_all add: secondRound_def)
  obtain gs gt where r: "Skip okEnv secondRound = Inr gs"
      "Tick okEnv (secondRound\<lparr>Time := 1\<rparr>) = Inr gt"
      "State gs = RevealState" "Time gs = 7"
      "gs = secondRound\<lparr>Time := 7, State := RevealState, heap := heap gs, wire := wire gs\<rparr>"
      "gt = gs\<lparr>heap := heap gt, wire := wire gt\<rparr>"
      "\<forall>a. heap gs a =
                  (if a \<in> set (Players secondRound) \<and> \<not> Answered (heap secondRound a)
                   then (heap secondRound a)\<lparr>LastAwardedPoints := 0, Answered := True\<rparr>
                   else heap secondRound a)"
      "\<forall>a. heap gt a = (heap gs a)\<lparr>Answered := Answered (heap secondRound a)\<rparr>"
    using skip_matches_timeout [OF s, of okEnv] by blast
  have ps: "Players gs = [2, 3]"
    by (subst r(5)) (simp add: p)
  have "State gt = RevealState" "Time gt = 7" "Players gt = [2, 3]"
    using r(3,4) ps by (subst r(6), simp)+
  moreover have "heap gs 2 = (heap secondRound 2)\<lparr>LastAwardedPoints := 0, Answered := True\<rparr>"
    "heap gs 3 = heap secondRound 3"
    using r(7) by (simp_all add: p h newPlayer_def)
  moreover have "heap gt 2 = (heap gs 2)\<lparr>Answered := False\<rparr>"
    "heap gt 3 = (heap gs 3)\<lparr>Answered := True\<rparr>"
    using r(8) by (simp_all add: h newPlayer_def)
  ultimately show ?thesis
    using s t r(1-4) ps by (auto simp: h newPlayer_def)
qed

subsection \<open>The end of the session\<close>

lemma SendPacket_unregistered:
  "packetToPacketId packet = Inl err \<Longrightarrow> SendPacket env c packet g = (Some InvalidPacketType, g)"
  by (simp add: SendPacket_def PacketToBytes_def)

lemma BroadcastPacket_unregistered:
  assumes "packetToPacketId packet = Inl err"
  shows "snd (BroadcastPacket env packet True g) = g"
proof (cases "Players g")
  case Nil
  then show ?thesis
    by (simp add: BroadcastPacket_def SendPacket_unregistered [OF assms])
next
  case (Cons p ps)
  then show ?thesis
    by (simp add: BroadcastPacket_def SendPacket_unregistered [OF assms])
qed

lemma getLeaderboard_frame:
  "snd (getLeaderboard env g) = g\<lparr>Players := Players (snd (getLeaderboard env g))\<rparr>"
  by (simp add: getLeaderboard_def Let_def)

lemma End_first:
  "\<not> Ended g \<Longrightarrow>
     End env g = snd (getLeaderboard env (g\<lparr>Ended := True, State := EndState\<rparr>))"
  by (simp add: End_def ChangeState_def BroadcastPacket_unregistered Let_def split: prod.splits)

lemma End_again: "Ended g \<Longrightarrow> End env g = g"
  by (simp add: End_def)

lemma Ended_End: "Ended (End env g)"
proof (cases "Ended g")
  case True
  then show ?thesis by (simp add: End_again)
next
  case False
  have "Ended (snd (getLeaderboard env (g\<lparr>Ended := True, State := EndState\<rparr>)))"
    by (subst getLeaderboard_frame) simp
  then show ?thesis using False by (simp add: End_first)
qed

lemma wire_End: "wire (End env g) = wire g"
proof (cases "Ended g")
  case True
  then show ?thesis by (simp add: End_again)
next
  case False
  have "wire (snd (getLeaderboard env (g\<lparr>Ended := True, State := EndState\<rparr>))) = wire g"
    by (subst getLeaderboard_frame) simp
  then show ?thesis using False by (simp add: End_first)
qed

text \<open>
  C6: the end transition runs once, and on that first entry the final leaderboard is
  broadcast to everyone including the host. The part about running once holds: a session
  that has ended is left as it is, and the first \<^verbatim>\<open>End\<close> sets the terminal flag, so a
  second \<^verbatim>\<open>End\<close> changes nothing. But no call of \<^verbatim>\<open>End\<close> writes a message to
  anyone: \<^verbatim>\<open>LeaderboardPacket\<close> (and \<^verbatim>\<open>ChangeGameStatePacket\<close>) has no tag in
  \<^verbatim>\<open>packetToPacketId\<close>, so the broadcast fails at its first recipient with
  "invalid packet type".
\<close>

theorem End_once_without_broadcast:
  "wire (End env g) = wire g \<and> Ended (End env g) \<and> End env (End env g) = End env g \<and>
   (Ended g \<longrightarrow> End env g = g)"
  by (simp add: wire_End Ended_End End_again)

theorem End_once_without_broadcast_witness:
  "Ended ((demoGame [2, 3])\<lparr>Ended := True\<rparr>) \<and>
   End okEnv ((demoGame [2, 3])\<lparr>Ended := True\<rparr>) = (demoGame [2, 3])\<lparr>Ended := True\<rparr> \<and>
   \<not> Ended (demoGame [2, 3]) \<and>
   State (End okEnv (demoGame [2, 3])) = EndState \<and>
   recipients True (End okEnv (demoGame [2, 3])) = [2, 3, 0] \<and>
   wire (End okEnv (demoGame [2, 3])) = []"
proof -
  have e: "\<not> Ended (demoGame [2, 3])" and w: "wire (demoGame [2, 3]) = []"
    by (simp_all add: demoGame_def)
  have "State (End okEnv (demoGame [2, 3])) = EndState"
    by (simp add: End_first [OF e]) (subst getLeaderboard_frame, simp)
  moreover have "recipients True (End okEnv (demoGame [2, 3])) = [2, 3, 0]"
    by (simp add: End_first [OF e] recipients_def getLeaderboard_def sortSlice_def insertionSort_func_def)
       (simp add: demoGame_def newPlayer_def)
  ultimately show ?thesis
    using End_once_without_broadcast [of okEnv "(demoGame [2, 3])\<lparr>Ended := True\<rparr>"]
      End_once_without_broadcast [of okEnv "demoGame [2, 3]"] e w
    by simp
qed

subsection \<open>The leaderboard\<close>

lemma mset_insertionSort_inner:
  "mset (insertionSort_inner lessFn x left) = add_mset x (mset left)"
  by (induction left) auto

lemma mset_insertionSort_outer:
  "mset (insertionSort_outer lessFn left xs) = mset left + mset xs"
  by (induction xs arbitrary: left) (auto simp: mset_insertionSort_inner)

lemma mset_insertionSort_func: "mset (insertionSort_func lessFn xs) = mset xs"
  by (simp add: insertionSort_func_def mset_insertionSort_outer)

lemma set_insertionSort_inner:
  "set (insertionSort_inner lessFn x left) = insert x (set left)"
  using mset_insertionSort_inner [of lessFn x left] by (metis set_mset_add_mset_insert set_mset_mset)

lemma sorted_insertionSort_inner:
  fixes key :: "'a \<Rightarrow> int"
  shows "sorted (map key left) \<Longrightarrow>
           sorted (map key (insertionSort_inner (\<lambda>a b. key a > key b) x left))"
  by (induction left) (auto simp: set_insertionSort_inner)

lemma sorted_insertionSort_outer:
  fixes key :: "'a \<Rightarrow> int"
  shows "sorted (map key left) \<Longrightarrow>
           sorted (rev (map key (insertionSort_outer (\<lambda>a b. key a > key b) left xs)))"
proof (induction xs arbitrary: left)
  case Nil
  then show ?case by (simp add: rev_map)
next
  case (Cons x xs)
  then show ?case by (simp add: sorted_insertionSort_inner)
qed

lemma descending_rev:
  fixes ys :: "int list"
  shows "sorted (rev ys) = sorted_wrt (\<lambda>a b. a \<ge> b) ys"
  by (simp add: sorted_wrt_rev)

lemma descending_insertionSort_func:
  fixes key :: "'a \<Rightarrow> int"
  shows "sorted_wrt (\<lambda>a b. key a \<ge> key b) (insertionSort_func (\<lambda>a b. key a > key b) xs)"
proof -
  have "sorted (rev (map key (insertionSort_func (\<lambda>a b. key a > key b) xs)))"
    unfolding insertionSort_func_def by (rule sorted_insertionSort_outer) simp
  then show ?thesis by (simp add: descending_rev sorted_wrt_map)
qed

lemma insertionSort_outer_in_order:
  fixes key :: "'a \<Rightarrow> int"
  shows "sorted_wrt (\<lambda>a b. key a \<ge> key b) (rev left @ xs) \<Longrightarrow>
           insertionSort_outer (\<lambda>a b. key a > key b) left xs = rev left @ xs"
proof (induction xs arbitrary: left)
  case Nil
  then show ?case by simp
next
  case (Cons x xs)
  have stay: "insertionSort_inner (\<lambda>a b. key a > key b) x left = x # left"
    using Cons.prems by (cases left) (auto simp: sorted_wrt_append)
  have "sorted_wrt (\<lambda>a b. key a \<ge> key b) (rev (x # left) @ xs)"
    using Cons.prems by simp
  then have "insertionSort_outer (\<lambda>a b. key a > key b) (x # left) xs = rev (x # left) @ xs"
    by (rule Cons.IH)
  then show ?case by (simp add: stay)
qed

lemma insertionSort_func_in_order:
  fixes key :: "'a \<Rightarrow> int"
  shows "sorted_wrt (\<lambda>a b. key a \<ge> key b) xs \<Longrightarrow>
           insertionSort_func (\<lambda>a b. key a > key b) xs = xs"
  using insertionSort_outer_in_order [of key "[]" xs] by (simp add: insertionSort_func_def)

text \<open>
  What \<^verbatim>\<open>sort.Slice\<close> does to a slice \<open>xs\<close> under the comparison by \<open>key\<close>, descending:
  for a short slice this is proved of the insertion sort, for a long one it is the
  behaviour required of the library's quicksort.
\<close>

lemma sortSlice_sorts:
  fixes key :: "addr \<Rightarrow> int"
  assumes "length xs \<le> 12 \<or> sortsLongSlices env"
  shows "mset (sortSlice env (\<lambda>a b. key a > key b) xs) = mset xs"
    and "sorted_wrt (\<lambda>a b. key a \<ge> key b) (sortSlice env (\<lambda>a b. key a > key b) xs)"
proof -
  have long: "mset (pdqsort_func env (\<lambda>a b. key a > key b) xs) = mset xs \<and>
          sorted_wrt (\<lambda>a b. key a \<ge> key b) (pdqsort_func env (\<lambda>a b. key a > key b) xs)"
    if "\<not> length xs \<le> 12"
  proof -
    have "sortsLongSlices env" and "12 < length xs" using assms that by auto
    then show ?thesis unfolding sortsLongSlices_def by blast
  qed
  show "mset (sortSlice env (\<lambda>a b. key a > key b) xs) = mset xs"
    using long by (cases "length xs \<le> 12") (simp_all add: sortSlice_def mset_insertionSort_func)
  show "sorted_wrt (\<lambda>a b. key a \<ge> key b) (sortSlice env (\<lambda>a b. key a > key b) xs)"
    using long
    by (cases "length xs \<le> 12") (simp_all add: sortSlice_def descending_insertionSort_func)
qed

lemma sortSlice_in_order:
  fixes key :: "addr \<Rightarrow> int"
  assumes "length xs \<le> 12 \<or> keepsOrderedSlices env"
    and "sorted_wrt (\<lambda>a b. key a \<ge> key b) xs"
  shows "sortSlice env (\<lambda>a b. key a > key b) xs = xs"
proof (cases "length xs \<le> 12")
  case True
  then show ?thesis using assms(2) by (simp add: sortSlice_def insertionSort_func_in_order)
next
  case False
  then have "keepsOrderedSlices env" and "12 < length xs" using assms(1) by auto
  then have "pdqsort_func env (\<lambda>a b. key a > key b) xs = xs"
    using assms(2) unfolding keepsOrderedSlices_def by blast
  then show ?thesis using False by (simp add: sortSlice_def)
qed

lemma sortsLongSlices_okEnv: "sortsLongSlices okEnv"
  by (simp add: sortsLongSlices_def okEnv_def mset_insertionSort_func
      descending_insertionSort_func)

lemma keepsOrderedSlices_okEnv: "keepsOrderedSlices okEnv"
  by (simp add: keepsOrderedSlices_def okEnv_def insertionSort_func_in_order)

text \<open>Two lists of integers in non-increasing order with the same elements are equal.\<close>

lemma descending_unique:
  fixes xs ys :: "int list"
  assumes "sorted_wrt (\<lambda>a b. a \<ge> b) xs" and "sorted_wrt (\<lambda>a b. a \<ge> b) ys"
    and "mset xs = mset ys"
  shows "xs = ys"
proof -
  have "sorted (rev xs)" and "sorted (rev ys)"
    using assms(1,2) by (simp_all add: descending_rev)
  moreover have "mset (rev xs) = mset (rev ys)" using assms(3) by simp
  ultimately have "sort (rev ys) = rev xs" and "sort (rev ys) = rev ys"
    by (simp_all add: properties_for_sort)
  then show ?thesis by simp
qed

lemma Players_getLeaderboard:
  "Players (snd (getLeaderboard env g))
     = sortSlice env (\<lambda>pi pj. Player.Points (heap g pi) > Player.Points (heap g pj)) (Players g)"
  by (simp add: getLeaderboard_def Let_def)

lemma fst_getLeaderboard:
  "fst (getLeaderboard env g)
     = map (\<lambda>player. \<lparr>LeaderboardEntry.Name = Player.Name (heap g player),
                       LeaderboardEntry.Points = Player.Points (heap g player)\<rparr>)
         (take 3 (Players (snd (getLeaderboard env g))))"
  by (simp add: getLeaderboard_def Let_def min_def)

lemma Points_getLeaderboard:
  "map LeaderboardEntry.Points (fst (getLeaderboard env g))
     = take 3 (map (\<lambda>p. Player.Points (heap g p)) (Players (snd (getLeaderboard env g))))"
  by (simp add: fst_getLeaderboard take_map comp_def)

lemma heap_getLeaderboard: "heap (snd (getLeaderboard env g)) = heap g"
  by (subst getLeaderboard_frame) simp

lemma mset_getLeaderboard:
  assumes "length (Players g) \<le> 12 \<or> sortsLongSlices env"
  shows "mset (Players (snd (getLeaderboard env g))) = mset (Players g)"
  using sortSlice_sorts(1) [OF assms, of "\<lambda>p. Player.Points (heap g p)"]
  by (simp add: Players_getLeaderboard)

lemma length_getLeaderboard:
  assumes "length (Players g) \<le> 12 \<or> sortsLongSlices env"
  shows "length (Players (snd (getLeaderboard env g))) = length (Players g)"
  using mset_getLeaderboard [OF assms] by (metis size_mset)

lemma descending_getLeaderboard:
  assumes "length (Players g) \<le> 12 \<or> sortsLongSlices env"
  shows "sorted_wrt (\<lambda>p q. Player.Points (heap g p) \<ge> Player.Points (heap g q))
           (Players (snd (getLeaderboard env g)))"
  using sortSlice_sorts(2) [OF assms, of "\<lambda>p. Player.Points (heap g p)"]
  by (simp add: Players_getLeaderboard)

lemma getLeaderboard_in_order:
  assumes "length (Players g) \<le> 12 \<or> keepsOrderedSlices env"
    and "sorted_wrt (\<lambda>p q. Player.Points (heap g p) \<ge> Player.Points (heap g q)) (Players g)"
  shows "snd (getLeaderboard env g) = g"
proof -
  have "Players (snd (getLeaderboard env g)) = Players g"
    using sortSlice_in_order [OF assms(1), of "\<lambda>p. Player.Points (heap g p)"] assms(2)
    by (simp add: Players_getLeaderboard)
  then show ?thesis using getLeaderboard_frame [of env g] by simp
qed

lemma getLeaderboard_again_Points:
  assumes "length (Players g) \<le> 12 \<or> sortsLongSlices env"
  shows "map LeaderboardEntry.Points (fst (getLeaderboard env (snd (getLeaderboard env g))))
           = map LeaderboardEntry.Points (fst (getLeaderboard env g))"
proof -
  let ?g1 = "snd (getLeaderboard env g)"
  let ?key = "\<lambda>p. Player.Points (heap g p)"
  have again: "length (Players ?g1) \<le> 12 \<or> sortsLongSlices env"
    using assms length_getLeaderboard [OF assms] by auto
  have "sorted_wrt (\<lambda>a b. a \<ge> b) (map ?key (Players ?g1))"
    using descending_getLeaderboard [OF assms] by (simp add: sorted_wrt_map)
  moreover have "sorted_wrt (\<lambda>a b. a \<ge> b) (map ?key (Players (snd (getLeaderboard env ?g1))))"
    using descending_getLeaderboard [OF again] by (simp add: sorted_wrt_map heap_getLeaderboard)
  moreover have "mset (map ?key (Players (snd (getLeaderboard env ?g1))))
                   = mset (map ?key (Players ?g1))"
    using mset_getLeaderboard [OF again] by (metis mset_map)
  ultimately have "map ?key (Players (snd (getLeaderboard env ?g1))) = map ?key (Players ?g1)"
    by (intro descending_unique) simp_all
  then show ?thesis by (simp add: Points_getLeaderboard heap_getLeaderboard)
qed

lemma getLeaderboard_again:
  assumes "length (Players g) \<le> 12 \<or> sortsLongSlices env \<and> keepsOrderedSlices env"
  shows "getLeaderboard env (snd (getLeaderboard env g)) = getLeaderboard env g"
proof -
  have sorts: "length (Players g) \<le> 12 \<or> sortsLongSlices env" using assms by auto
  have again: "length (Players (snd (getLeaderboard env g))) \<le> 12 \<or> keepsOrderedSlices env"
    using assms length_getLeaderboard [OF sorts] by auto
  have same: "snd (getLeaderboard env (snd (getLeaderboard env g))) = snd (getLeaderboard env g)"
    using again by (rule getLeaderboard_in_order)
      (simp add: heap_getLeaderboard descending_getLeaderboard [OF sorts])
  have "fst (getLeaderboard env (snd (getLeaderboard env g))) = fst (getLeaderboard env g)"
    by (simp add: fst_getLeaderboard [of env "snd (getLeaderboard env g)"] same heap_getLeaderboard
        fst_getLeaderboard [of env g])
  then show ?thesis using same by (simp add: prod_eq_iff)
qed

text \<open>
  C7, as stated: the entries are in strictly descending order of points. Two players
  with the same score (here both with 0 points) are both listed.
\<close>

theorem leaderboard_tie_counterexample:
  "fst (getLeaderboard okEnv (demoGame [1, 2]))
     = [\<lparr>LeaderboardEntry.Name = [], LeaderboardEntry.Points = 0\<rparr>,
        \<lparr>LeaderboardEntry.Name = [], LeaderboardEntry.Points = 0\<rparr>] \<and>
   \<not> sorted_wrt (\<lambda>a b. LeaderboardEntry.Points a > LeaderboardEntry.Points b)
        (fst (getLeaderboard okEnv (demoGame [1, 2])))"
  by (simp add: getLeaderboard_def sortSlice_def insertionSort_func_def demoGame_def newPlayer_def)

text \<open>
  C7, amended: \<^verbatim>\<open>getLeaderboard\<close> returns at most 3 entries, for every roster and
  whatever the library's sort does. For a roster of at most 12 players the entries are as
  many as the smaller of 3 and the size of the roster, they are in non-increasing order of
  points, and a second call on the session the first call left returns the same entries
  and leaves that session as it is. For a longer roster the number and the order of the
  entries, and that a second call returns entries with the same points, follow from what
  \<^verbatim>\<open>sort.Slice\<close> documents (\<open>sortsLongSlices\<close>); that the second call returns the very
  same entries and leaves the session as it is follows when the library's sort also
  leaves an ordered slice as it is (\<open>keepsOrderedSlices\<close>).
\<close>

theorem leaderboard_top3_descending:
  "length (fst (getLeaderboard env g)) \<le> 3 \<and>
   (length (Players g) \<le> 12 \<or> sortsLongSlices env \<longrightarrow>
      length (fst (getLeaderboard env g)) = min 3 (length (Players g)) \<and>
      sorted_wrt (\<lambda>a b. LeaderboardEntry.Points a \<ge> LeaderboardEntry.Points b)
        (fst (getLeaderboard env g)) \<and>
      map LeaderboardEntry.Points (fst (getLeaderboard env (snd (getLeaderboard env g))))
        = map LeaderboardEntry.Points (fst (getLeaderboard env g))) \<and>
   (length (Players g) \<le> 12 \<or> sortsLongSlices env \<and> keepsOrderedSlices env \<longrightarrow>
      getLeaderboard env (snd (getLeaderboard env g)) = getLeaderboard env g)"
proof -
  have short: "length (fst (getLeaderboard env g)) \<le> 3"
    by (simp add: fst_getLeaderboard)
  have rest: "length (fst (getLeaderboard env g)) = min 3 (length (Players g)) \<and>
      sorted_wrt (\<lambda>a b. LeaderboardEntry.Points a \<ge> LeaderboardEntry.Points b)
        (fst (getLeaderboard env g)) \<and>
      map LeaderboardEntry.Points (fst (getLeaderboard env (snd (getLeaderboard env g))))
        = map LeaderboardEntry.Points (fst (getLeaderboard env g))"
    if sorts: "length (Players g) \<le> 12 \<or> sortsLongSlices env"
  proof -
    have "sorted_wrt (\<lambda>p q. Player.Points (heap g p) \<ge> Player.Points (heap g q))
            (take 3 (Players (snd (getLeaderboard env g))))"
      using descending_getLeaderboard [OF sorts] by (rule sorted_wrt_take)
    then have "sorted_wrt (\<lambda>a b. LeaderboardEntry.Points a \<ge> LeaderboardEntry.Points b)
                 (fst (getLeaderboard env g))"
      by (simp add: fst_getLeaderboard sorted_wrt_map)
    moreover have "length (fst (getLeaderboard env g)) = min 3 (length (Players g))"
      by (simp add: fst_getLeaderboard length_getLeaderboard [OF sorts] min.commute)
    ultimately show ?thesis by (simp add: getLeaderboard_again_Points [OF sorts])
  qed
  show ?thesis using short rest getLeaderboard_again [of g env] by blast
qed

theorem leaderboard_top3_descending_witness:
  "length (Players (answerRecorded True 3 (demoGame [2, 3]))) \<le> 12 \<and>
   fst (getLeaderboard okEnv (answerRecorded True 3 (demoGame [2, 3])))
     = [\<lparr>LeaderboardEntry.Name = [], LeaderboardEntry.Points = 5144\<rparr>,
        \<lparr>LeaderboardEntry.Name = [], LeaderboardEntry.Points = 0\<rparr>] \<and>
   getLeaderboard okEnv (snd (getLeaderboard okEnv (answerRecorded True 3 (demoGame [2, 3]))))
     = getLeaderboard okEnv (answerRecorded True 3 (demoGame [2, 3])) \<and>
   12 < length (Players (demoGame crowd)) \<and>
   sortsLongSlices okEnv \<and> keepsOrderedSlices okEnv \<and>
   length (fst (getLeaderboard okEnv (demoGame crowd))) = 3 \<and>
   getLeaderboard okEnv (snd (getLeaderboard okEnv (demoGame crowd)))
     = getLeaderboard okEnv (demoGame crowd)"
proof -
  have two: "length (Players (answerRecorded True 3 (demoGame [2, 3]))) \<le> 12"
    by (simp add: answerRecorded_def demoGame_def)
  have many: "length (Players (demoGame crowd)) = 13"
    by (simp add: demoGame_def crowd_def)
  have entries: "fst (getLeaderboard okEnv (answerRecorded True 3 (demoGame [2, 3])))
     = [\<lparr>LeaderboardEntry.Name = [], LeaderboardEntry.Points = 5144\<rparr>,
        \<lparr>LeaderboardEntry.Name = [], LeaderboardEntry.Points = 0\<rparr>]"
    by (simp add: getLeaderboard_def sortSlice_def insertionSort_func_def answerRecorded_def
        getPointsReward_demoGame)
       (simp add: demoGame_def newPlayer_def wrap64_def)
  show ?thesis
    using leaderboard_top3_descending [of okEnv "answerRecorded True 3 (demoGame [2, 3])"]
      leaderboard_top3_descending [of okEnv "demoGame crowd"]
      two many entries sortsLongSlices_okEnv keepsOrderedSlices_okEnv
    by simp
qed

text \<open>
  C8, as stated: \<^verbatim>\<open>getLeaderboard\<close> leaves the session, and the order of the roster,
  as it was. It sorts \<^verbatim>\<open>g.Players\<close> in place: a roster \<open>[2, 3]\<close> in which player 3 has
  the higher score is \<open>[3, 2]\<close> after the call.
\<close>

theorem leaderboard_reorders_counterexample:
  "Players (answerRecorded True 3 (demoGame [2, 3])) = [2, 3] \<and>
   Players (snd (getLeaderboard okEnv (answerRecorded True 3 (demoGame [2, 3])))) = [3, 2]"
  by (simp add: getLeaderboard_def sortSlice_def insertionSort_func_def answerRecorded_def
      getPointsReward_demoGame)
     (simp add: demoGame_def newPlayer_def wrap64_def)

text \<open>
  C8, amended: \<^verbatim>\<open>getLeaderboard\<close> changes nothing of the session but the roster, which
  it sorts in place: the players' fields and every other field of the session are
  unchanged, for every roster and whatever the library's sort does. For a roster of at
  most 12 players the roster afterwards holds the same players, in non-increasing order of
  points, and a roster that is in non-increasing order of points already is left as it
  is. For a longer roster the first two follow from what \<^verbatim>\<open>sort.Slice\<close> documents
  (\<open>sortsLongSlices\<close>), the last when the library's sort leaves an ordered slice as it is
  (\<open>keepsOrderedSlices\<close>).
\<close>

theorem leaderboard_sorts_roster:
  "snd (getLeaderboard env g) = g\<lparr>Players := Players (snd (getLeaderboard env g))\<rparr> \<and>
   (length (Players g) \<le> 12 \<or> sortsLongSlices env \<longrightarrow>
      mset (Players (snd (getLeaderboard env g))) = mset (Players g) \<and>
      sorted_wrt (\<lambda>p q. Player.Points (heap g p) \<ge> Player.Points (heap g q))
        (Players (snd (getLeaderboard env g)))) \<and>
   (length (Players g) \<le> 12 \<or> keepsOrderedSlices env \<longrightarrow>
      sorted_wrt (\<lambda>p q. Player.Points (heap g p) \<ge> Player.Points (heap g q)) (Players g) \<longrightarrow>
      snd (getLeaderboard env g) = g)"
  using getLeaderboard_frame [of env g] mset_getLeaderboard [of g env]
    descending_getLeaderboard [of g env] getLeaderboard_in_order [of g env]
  by blast

theorem leaderboard_sorts_roster_witness:
  "length (Players (demoGame [2, 3])) \<le> 12 \<and>
   sorted_wrt (\<lambda>p q. Player.Points (heap (demoGame [2, 3]) p) \<ge> Player.Points (heap (demoGame [2, 3]) q))
     (Players (demoGame [2, 3])) \<and>
   snd (getLeaderboard okEnv (demoGame [2, 3])) = demoGame [2, 3] \<and>
   mset (Players (snd (getLeaderboard okEnv (answerRecorded True 3 (demoGame [2, 3])))))
     = mset (Players (answerRecorded True 3 (demoGame [2, 3]))) \<and>
   12 < length (Players (demoGame crowd)) \<and>
   sortsLongSlices okEnv \<and> keepsOrderedSlices okEnv \<and>
   mset (Players (snd (getLeaderboard okEnv (demoGame crowd)))) = mset (Players (demoGame crowd)) \<and>
   snd (getLeaderboard okEnv (demoGame crowd)) = demoGame crowd"
proof -
  have two: "length (Players (demoGame [2, 3])) \<le> 12"
    "length (Players (answerRecorded True 3 (demoGame [2, 3]))) \<le> 12"
    by (simp_all add: answerRecorded_def demoGame_def)
  have many: "length (Players (demoGame crowd)) = 13"
    by (simp add: demoGame_def crowd_def)
  have "sorted_wrt (\<lambda>p q. Player.Points (heap (demoGame roster) p) \<ge> Player.Points (heap (demoGame roster) q))
     (Players (demoGame roster))" for roster
    by (simp add: demoGame_def newPlayer_def sorted_wrt_iff_nth_less)
  then show ?thesis
    using leaderboard_sorts_roster [of okEnv "demoGame [2, 3]"]
      leaderboard_sorts_roster [of okEnv "answerRecorded True 3 (demoGame [2, 3])"]
      leaderboard_sorts_roster [of okEnv "demoGame crowd"]
      two many sortsLongSlices_okEnv keepsOrderedSlices_okEnv
    by simp
qed

end
